theory Spec2Isabelle
  imports Main "HOL-Library.Sublist"
begin

section \<open>The backend API of apps/backend/main.go\<close>

text \<open>
  The handlers of \<^verbatim>\<open>apps/backend/main.go\<close> are modelled as functions from the server
  state (the package-level \<^verbatim>\<open>db\<close> and \<^verbatim>\<open>flagCache\<close>) to a response and the new state.
  A request body is given as \<^verbatim>\<open>encoding/json\<close> decodes it (\<open>None\<close> when decoding fails);
  the clock reading of a request is the parameter \<open>now\<close>. Go's \<^verbatim>\<open>uint\<close> and \<^verbatim>\<open>int\<close>
  are \<open>nat\<close> and \<open>int\<close>: no handler does arithmetic that could leave 64 bits.
\<close>

subsection \<open>Data model\<close>

text \<open>A \<^verbatim>\<open>time.Time\<close>; \<open>0\<close> is Go's zero time.\<close>

type_synonym time = nat

record User =
  ID :: nat
  Email :: string
  Name :: string
  CreatedAt :: time
  UpdatedAt :: time

record FeatureFlag =
  ID :: nat
  Key :: string
  Name :: string
  Description :: string
  Enabled :: bool
  CreatedAt :: time
  UpdatedAt :: time

record ZoneStatus =
  Name :: string
  Status :: string
  URL :: string
  LastCheck :: time
  Message :: string

text \<open>A value of \<^verbatim>\<open>map[string]interface{}\<close> as the JSON decoder produces it.\<close>

datatype json = JNull | JBool bool | JNumber int | JString string

text \<open>The body of the seed response, \<^verbatim>\<open>map[string]interface{}\<close> with six fixed keys.\<close>

record seed_report =
  message :: string
  totalUsers :: nat
  created :: nat
  skipped :: nat
  errors :: "string list"
  errorCount :: nat

datatype body =
    Text string
  | JUser User
  | JFlag FeatureFlag
  | JFlags "FeatureFlag list"
  | JSeed seed_report

record response =
  status :: nat
  body :: body

text \<open>\<^verbatim>\<open>http.Error(w, msg, code)\<close>.\<close>

definition http_Error :: "string \<Rightarrow> nat \<Rightarrow> response" where
  "http_Error msg code = \<lparr>status = code, body = Text msg\<rparr>"

definition StatusOK :: nat where "StatusOK = 200"
definition StatusCreated :: nat where "StatusCreated = 201"
definition StatusBadRequest :: nat where "StatusBadRequest = 400"
definition StatusNotFound :: nat where "StatusNotFound = 404"
definition StatusInternalServerError :: nat where "StatusInternalServerError = 500"

subsection \<open>The datastore\<close>

text \<open>
  The PostgreSQL database behind GORM: the two tables in insertion order, the two id
  sequences, and the connection. \<open>conn\<close> lists what the connection answers to the coming
  statements: \<open>Some e\<close> makes the next statement fail with the error text \<open>e\<close> and change
  nothing, \<open>None\<close> (or an exhausted list) lets it run. Every statement a handler issues
  takes one entry, so \<open>conn\<close> also records how many statements were issued.
\<close>

record datastore =
  users :: "User list"
  users_id_seq :: nat
  feature_flags :: "FeatureFlag list"
  feature_flags_id_seq :: nat
  conn :: "string option list"

datatype db_error = ErrRecordNotFound | ErrOther string

fun err_text :: "db_error \<Rightarrow> string" where
  "err_text ErrRecordNotFound = ''record not found''"
| "err_text (ErrOther e) = e"

definition next_stmt :: "datastore \<Rightarrow> string option \<times> datastore" where
  "next_stmt d = (case conn d of [] \<Rightarrow> (None, d) | f # fs \<Rightarrow> (f, d\<lparr>conn := fs\<rparr>))"

text \<open>\<^verbatim>\<open>ORDER BY id LIMIT 1\<close>: the matching row with the least id.\<close>

definition first_row :: "('r \<Rightarrow> nat) \<Rightarrow> ('r \<Rightarrow> bool) \<Rightarrow> 'r list \<Rightarrow> 'r option" where
  "first_row pk P rows = find P (sort_key pk rows)"

definition pkey_violation :: "string \<Rightarrow> string" where
  "pkey_violation table = ''duplicate key value violates unique constraint '' @ table @ ''_pkey''"

definition unique_violation :: "string \<Rightarrow> string" where
  "unique_violation index = ''duplicate key value violates unique constraint '' @ index"

text \<open>
  \<^verbatim>\<open>db.Create(&user)\<close>. A zero id is taken from the sequence, which PostgreSQL advances
  even when the insert then fails; a non-zero id is inserted as given. Zero timestamps
  are set to the current time. The primary key and the unique index on email are checked.
\<close>

definition db_create_user :: "time \<Rightarrow> User \<Rightarrow> datastore \<Rightarrow> (db_error + User) \<times> datastore" where
  "db_create_user now u d =
     (case next_stmt d of
        (Some e, d1) \<Rightarrow> (Inl (ErrOther e), d1)
      | (None, d1) \<Rightarrow>
          (let d2 = (if User.ID u = 0 then d1\<lparr>users_id_seq := users_id_seq d1 + 1\<rparr> else d1);
               row = u\<lparr>User.ID := (if User.ID u = 0 then users_id_seq d2 else User.ID u),
                       User.CreatedAt := (if User.CreatedAt u = 0 then now else User.CreatedAt u),
                       User.UpdatedAt := (if User.UpdatedAt u = 0 then now else User.UpdatedAt u)\<rparr>
           in if User.ID row \<in> User.ID ` set (users d2)
              then (Inl (ErrOther (pkey_violation ''users'')), d2)
              else if Email row \<in> Email ` set (users d2)
              then (Inl (ErrOther (unique_violation ''idx_users_email'')), d2)
              else (Inr row, d2\<lparr>users := users d2 @ [row]\<rparr>)))"

text \<open>
  A struct given as a query condition: GORM compares the non-zero fields only.
\<close>

definition user_conds :: "User \<Rightarrow> User \<Rightarrow> bool" where
  "user_conds c r \<longleftrightarrow>
     (User.ID c \<noteq> 0 \<longrightarrow> User.ID r = User.ID c) \<and>
     (Email c \<noteq> [] \<longrightarrow> Email r = Email c) \<and>
     (User.Name c \<noteq> [] \<longrightarrow> User.Name r = User.Name c) \<and>
     (User.CreatedAt c \<noteq> 0 \<longrightarrow> User.CreatedAt r = User.CreatedAt c) \<and>
     (User.UpdatedAt c \<noteq> 0 \<longrightarrow> User.UpdatedAt r = User.UpdatedAt c)"

text \<open>
  \<^verbatim>\<open>db.Where("email = ?", email).FirstOrCreate(&existingUser, user)\<close>: one SELECT with
  the email condition and the struct condition; when no row matches, \<^verbatim>\<open>existingUser\<close>
  takes the non-zero fields of \<^verbatim>\<open>user\<close> and is inserted. The second component is
  \<^verbatim>\<open>RowsAffected\<close>: 0 for a row that was found, 1 for a row that was created.
\<close>

definition db_first_or_create_user ::
    "time \<Rightarrow> string \<Rightarrow> User \<Rightarrow> datastore \<Rightarrow> (db_error + User \<times> nat) \<times> datastore" where
  "db_first_or_create_user now email u d =
     (case next_stmt d of
        (Some e, d1) \<Rightarrow> (Inl (ErrOther e), d1)
      | (None, d1) \<Rightarrow>
          (case first_row User.ID (\<lambda>r. Email r = email \<and> user_conds u r) (users d1) of
             Some r \<Rightarrow> (Inr (r, 0), d1)
           | None \<Rightarrow>
               (case db_create_user now u d1 of
                  (Inl e, d2) \<Rightarrow> (Inl e, d2)
                | (Inr r, d2) \<Rightarrow> (Inr (r, 1), d2))))"

text \<open>\<^verbatim>\<open>db.Find(&flags)\<close>.\<close>

definition db_find_flags :: "datastore \<Rightarrow> (db_error + FeatureFlag list) \<times> datastore" where
  "db_find_flags d =
     (case next_stmt d of
        (Some e, d1) \<Rightarrow> (Inl (ErrOther e), d1)
      | (None, d1) \<Rightarrow> (Inr (feature_flags d1), d1))"

text \<open>
  \<^verbatim>\<open>db.Where("key = ?", key).First(&flag)\<close>. When \<^verbatim>\<open>flag\<close> already carries a primary
  key (\<open>pk \<noteq> 0\<close>), GORM adds it to the condition.
\<close>

definition db_first_flag :: "string \<Rightarrow> nat \<Rightarrow> datastore \<Rightarrow> (db_error + FeatureFlag) \<times> datastore" where
  "db_first_flag key pk d =
     (case next_stmt d of
        (Some e, d1) \<Rightarrow> (Inl (ErrOther e), d1)
      | (None, d1) \<Rightarrow>
          (case first_row FeatureFlag.ID
                  (\<lambda>r. Key r = key \<and> (pk \<noteq> 0 \<longrightarrow> FeatureFlag.ID r = pk)) (feature_flags d1) of
             None \<Rightarrow> (Inl ErrRecordNotFound, d1)
           | Some r \<Rightarrow> (Inr r, d1)))"

text \<open>
  \<^verbatim>\<open>db.Create(&flag)\<close>, as for users. \<^verbatim>\<open>Enabled\<close> has the column default false, which
  is what a false field stores; a true field is stored as given.
\<close>

definition db_create_flag :: "time \<Rightarrow> FeatureFlag \<Rightarrow> datastore \<Rightarrow> (db_error + FeatureFlag) \<times> datastore" where
  "db_create_flag now f d =
     (case next_stmt d of
        (Some e, d1) \<Rightarrow> (Inl (ErrOther e), d1)
      | (None, d1) \<Rightarrow>
          (let d2 = (if FeatureFlag.ID f = 0
                     then d1\<lparr>feature_flags_id_seq := feature_flags_id_seq d1 + 1\<rparr> else d1);
               row = f\<lparr>FeatureFlag.ID := (if FeatureFlag.ID f = 0 then feature_flags_id_seq d2
                                            else FeatureFlag.ID f),
                       FeatureFlag.CreatedAt :=
                         (if FeatureFlag.CreatedAt f = 0 then now else FeatureFlag.CreatedAt f),
                       FeatureFlag.UpdatedAt :=
                         (if FeatureFlag.UpdatedAt f = 0 then now else FeatureFlag.UpdatedAt f)\<rparr>
           in if FeatureFlag.ID row \<in> FeatureFlag.ID ` set (feature_flags d2)
              then (Inl (ErrOther (pkey_violation ''feature_flags'')), d2)
              else if Key row \<in> Key ` set (feature_flags d2)
              then (Inl (ErrOther (unique_violation ''idx_feature_flags_key'')), d2)
              else (Inr row, d2\<lparr>feature_flags := feature_flags d2 @ [row]\<rparr>)))"

text \<open>
  \<^verbatim>\<open>db.Model(&flag).Updates(updates)\<close> with a map. GORM looks each key up as a column
  name or a Go field name of the model; a key that names no field is sent as a column of
  its own, which PostgreSQL does not know. For a key that names a field, the value is
  assigned in the row, by the UPDATE statement, and in \<^verbatim>\<open>flag\<close>, by the setter of the
  field, whose error GORM drops. The statement updates the row with the id of \<^verbatim>\<open>flag\<close>.
  With a map, zero values are assigned too. \<^verbatim>\<open>updated_at\<close> is set to the current time, in
  the row and in \<^verbatim>\<open>flag\<close>, unless the map gives it a value that is not null; a null for it
  leaves two assignments to \<^verbatim>\<open>updated_at\<close> in the statement, which PostgreSQL refuses, as
  it refuses two keys for one column.

  A JSON string for key, name or description and a JSON boolean for enabled are
  assigned as they are (\<open>typed_cell\<close>). What becomes of every other value (null, a
  number, a string for the boolean, and any value for id, created_at and updated_at) is
  decided by GORM's setters, the driver and PostgreSQL, none of which is in this
  repository: the model takes it as the parameter \<open>co\<close>. \<open>in_db co c v\<close> is the value the
  statement stores in column \<open>c\<close> for the JSON value \<open>v\<close>, \<open>None\<close> when the statement
  fails on it (a value the column does not accept, a null in a NOT NULL column);
  \<open>in_memory co c v\<close> is the value the setter leaves in the field, \<open>None\<close> when it leaves
  the field as it was.
\<close>

datatype column =
  ColID | ColKey | ColName | ColDescription | ColEnabled | ColCreatedAt | ColUpdatedAt

definition column_of :: "string \<Rightarrow> column option" where
  "column_of k =
     (if k = ''id'' \<or> k = ''ID'' then Some ColID
      else if k = ''key'' \<or> k = ''Key'' then Some ColKey
      else if k = ''name'' \<or> k = ''Name'' then Some ColName
      else if k = ''description'' \<or> k = ''Description'' then Some ColDescription
      else if k = ''enabled'' \<or> k = ''Enabled'' then Some ColEnabled
      else if k = ''created_at'' \<or> k = ''CreatedAt'' then Some ColCreatedAt
      else if k = ''updated_at'' \<or> k = ''UpdatedAt'' then Some ColUpdatedAt
      else None)"

datatype cell = VNat nat | VText string | VBool bool | VTime time

record coercion =
  in_db :: "column \<Rightarrow> json \<Rightarrow> cell option"
  in_memory :: "column \<Rightarrow> json \<Rightarrow> cell option"

fun typed_cell :: "column \<Rightarrow> json \<Rightarrow> cell option" where
  "typed_cell ColKey (JString s) = Some (VText s)"
| "typed_cell ColName (JString s) = Some (VText s)"
| "typed_cell ColDescription (JString s) = Some (VText s)"
| "typed_cell ColEnabled (JBool b) = Some (VBool b)"
| "typed_cell c v = None"

definition cell_of :: "(column \<Rightarrow> json \<Rightarrow> cell option) \<Rightarrow> column \<Rightarrow> json \<Rightarrow> cell option" where
  "cell_of other c v = (case typed_cell c v of Some x \<Rightarrow> Some x | None \<Rightarrow> other c v)"

text \<open>Writing a value into a column; \<open>None\<close> when the value is not of the column's type.\<close>

fun set_column :: "column \<Rightarrow> cell \<Rightarrow> FeatureFlag \<Rightarrow> FeatureFlag option" where
  "set_column ColID (VNat n) f = Some (f\<lparr>FeatureFlag.ID := n\<rparr>)"
| "set_column ColKey (VText s) f = Some (f\<lparr>Key := s\<rparr>)"
| "set_column ColName (VText s) f = Some (f\<lparr>FeatureFlag.Name := s\<rparr>)"
| "set_column ColDescription (VText s) f = Some (f\<lparr>Description := s\<rparr>)"
| "set_column ColEnabled (VBool b) f = Some (f\<lparr>Enabled := b\<rparr>)"
| "set_column ColCreatedAt (VTime t) f = Some (f\<lparr>FeatureFlag.CreatedAt := t\<rparr>)"
| "set_column ColUpdatedAt (VTime t) f = Some (f\<lparr>FeatureFlag.UpdatedAt := t\<rparr>)"
| "set_column c x f = None"

text \<open>One entry of the map in the statement: \<open>None\<close> when the statement fails on it.\<close>

fun db_assign :: "(column \<Rightarrow> json \<Rightarrow> cell option) \<Rightarrow> string \<times> json \<Rightarrow> FeatureFlag \<Rightarrow> FeatureFlag option" where
  "db_assign other (k, v) r =
     (case column_of k of
        None \<Rightarrow> None
      | Some c \<Rightarrow> (case cell_of other c v of None \<Rightarrow> None | Some x \<Rightarrow> set_column c x r))"

fun db_assign_all ::
    "(column \<Rightarrow> json \<Rightarrow> cell option) \<Rightarrow> (string \<times> json) list \<Rightarrow> FeatureFlag \<Rightarrow> FeatureFlag option" where
  "db_assign_all other [] r = Some r"
| "db_assign_all other (kv # kvs) r =
     (case db_assign other kv r of None \<Rightarrow> None | Some r' \<Rightarrow> db_assign_all other kvs r')"

text \<open>One entry of the map in \<^verbatim>\<open>flag\<close>: a setter that fails leaves the field as it was.\<close>

fun mem_assign :: "(column \<Rightarrow> json \<Rightarrow> cell option) \<Rightarrow> string \<times> json \<Rightarrow> FeatureFlag \<Rightarrow> FeatureFlag" where
  "mem_assign other (k, v) f =
     (case column_of k of
        None \<Rightarrow> f
      | Some c \<Rightarrow>
          (case cell_of other c v of
             None \<Rightarrow> f
           | Some x \<Rightarrow> (case set_column c x f of None \<Rightarrow> f | Some f' \<Rightarrow> f')))"

fun mem_assign_all ::
    "(column \<Rightarrow> json \<Rightarrow> cell option) \<Rightarrow> (string \<times> json) list \<Rightarrow> FeatureFlag \<Rightarrow> FeatureFlag" where
  "mem_assign_all other [] f = f"
| "mem_assign_all other (kv # kvs) f = mem_assign_all other kvs (mem_assign other kv f)"

text \<open>
  GORM adds \<^verbatim>\<open>updated_at = now\<close> when \<^verbatim>\<open>value["UpdatedAt"] == nil && value["updated_at"] == nil\<close>.
\<close>

definition auto_updated_at :: "(string \<times> json) list \<Rightarrow> bool" where
  "auto_updated_at updates \<longleftrightarrow>
     list_all (\<lambda>(k, v). column_of k = Some ColUpdatedAt \<longrightarrow> v = JNull) updates"

definition assigned_columns :: "(string \<times> json) list \<Rightarrow> column option list" where
  "assigned_columns updates =
     map (column_of \<circ> fst) updates @ (if auto_updated_at updates then [Some ColUpdatedAt] else [])"

definition db_row_after ::
    "coercion \<Rightarrow> time \<Rightarrow> (string \<times> json) list \<Rightarrow> FeatureFlag \<Rightarrow> FeatureFlag option" where
  "db_row_after co now updates r =
     (case db_assign_all (in_db co) updates r of
        None \<Rightarrow> None
      | Some r' \<Rightarrow> Some (if auto_updated_at updates then r'\<lparr>FeatureFlag.UpdatedAt := now\<rparr> else r'))"

definition mem_after ::
    "coercion \<Rightarrow> time \<Rightarrow> (string \<times> json) list \<Rightarrow> FeatureFlag \<Rightarrow> FeatureFlag" where
  "mem_after co now updates f =
     (let f' = mem_assign_all (in_memory co) updates f
      in if auto_updated_at updates then f'\<lparr>FeatureFlag.UpdatedAt := now\<rparr> else f')"

definition db_updates_flag ::
    "coercion \<Rightarrow> time \<Rightarrow> FeatureFlag \<Rightarrow> (string \<times> json) list \<Rightarrow> datastore
       \<Rightarrow> (db_error + FeatureFlag) \<times> datastore" where
  "db_updates_flag co now flag updates d =
     (case next_stmt d of
        (Some e, d1) \<Rightarrow> (Inl (ErrOther e), d1)
      | (None, d1) \<Rightarrow>
          (if FeatureFlag.ID flag = 0 then (Inl (ErrOther ''WHERE conditions required''), d1)
           else if \<not> distinct (assigned_columns updates)
           then (Inl (ErrOther ''multiple assignments to same column''), d1)
           else (case db_row_after co now updates flag of
                   None \<Rightarrow> (Inl (ErrOther ''column does not exist or value not accepted''), d1)
                 | Some row \<Rightarrow>
                     (if \<exists>r \<in> set (feature_flags d1).
                           FeatureFlag.ID r \<noteq> FeatureFlag.ID flag \<and> FeatureFlag.ID r = FeatureFlag.ID row
                      then (Inl (ErrOther (pkey_violation ''feature_flags'')), d1)
                      else if \<exists>r \<in> set (feature_flags d1).
                           FeatureFlag.ID r \<noteq> FeatureFlag.ID flag \<and> Key r = Key row
                      then (Inl (ErrOther (unique_violation ''idx_feature_flags_key'')), d1)
                      else (Inr (mem_after co now updates flag),
                            d1\<lparr>feature_flags :=
                                 map (\<lambda>r. if FeatureFlag.ID r = FeatureFlag.ID flag
                                          then (case db_row_after co now updates r of
                                                  Some r' \<Rightarrow> r' | None \<Rightarrow> r)
                                          else r)
                                     (feature_flags d1)\<rparr>)))))"

subsection \<open>Server state\<close>

text \<open>The package-level variables \<^verbatim>\<open>db\<close> and \<^verbatim>\<open>flagCache\<close> (a \<^verbatim>\<open>sync.Map\<close>).\<close>

record server =
  db :: datastore
  flagCache :: "string \<rightharpoonup> FeatureFlag"

subsection \<open>User handlers\<close>

text \<open>\<^verbatim>\<open>createUserHandler\<close>, POST /api/users.\<close>

definition createUserHandler :: "time \<Rightarrow> User option \<Rightarrow> server \<Rightarrow> response \<times> server" where
  "createUserHandler now decoded s =
     (case decoded of
        None \<Rightarrow> (http_Error ''Invalid request body'' StatusBadRequest, s)
      | Some user \<Rightarrow>
          (if Email user = [] \<or> User.Name user = []
           then (http_Error ''Email and name are required'' StatusBadRequest, s)
           else (case db_create_user now user (db s) of
                   (Inl err, d) \<Rightarrow>
                     (http_Error (''Failed to create user: '' @ err_text err) StatusInternalServerError,
                      s\<lparr>db := d\<rparr>)
                 | (Inr user', d) \<Rightarrow>
                     (\<lparr>status = StatusCreated, body = JUser user'\<rparr>, s\<lparr>db := d\<rparr>))))"

text \<open>\<^verbatim>\<open>seedDatabaseHandler\<close>, POST /api/seed.\<close>

definition sampleUsers :: "User list" where
  "sampleUsers =
     [\<lparr>User.ID = 0, Email = ''alice@example.com'', Name = ''Alice Johnson'', CreatedAt = 0, UpdatedAt = 0\<rparr>,
      \<lparr>User.ID = 0, Email = ''bob@example.com'', Name = ''Bob Smith'', CreatedAt = 0, UpdatedAt = 0\<rparr>,
      \<lparr>User.ID = 0, Email = ''charlie@example.com'', Name = ''Charlie Brown'', CreatedAt = 0, UpdatedAt = 0\<rparr>,
      \<lparr>User.ID = 0, Email = ''diana@example.com'', Name = ''Diana Prince'', CreatedAt = 0, UpdatedAt = 0\<rparr>,
      \<lparr>User.ID = 0, Email = ''eve@example.com'', Name = ''Eve Anderson'', CreatedAt = 0, UpdatedAt = 0\<rparr>]"

text \<open>
  The loop over the sample users, with its three accumulators \<^verbatim>\<open>createdCount\<close>,
  \<^verbatim>\<open>skippedCount\<close> and \<^verbatim>\<open>errors\<close>.
\<close>

fun seed_loop ::
    "time \<Rightarrow> User list \<Rightarrow> nat \<times> nat \<times> string list \<Rightarrow> datastore
       \<Rightarrow> (nat \<times> nat \<times> string list) \<times> datastore" where
  "seed_loop now [] acc d = (acc, d)"
| "seed_loop now (user # rest) (createdCount, skippedCount, errs) d =
     (case db_first_or_create_user now (Email user) user d of
        (Inl err, d') \<Rightarrow>
          seed_loop now rest
            (createdCount, skippedCount,
             errs @ [''Error creating user '' @ Email user @ '': '' @ err_text err]) d'
      | (Inr (existingUser, rowsAffected), d') \<Rightarrow>
          (if rowsAffected > 0
           then seed_loop now rest (createdCount + 1, skippedCount, errs) d'
           else seed_loop now rest (createdCount, skippedCount + 1, errs) d'))"

definition seedDatabaseHandler :: "time \<Rightarrow> server \<Rightarrow> response \<times> server" where
  "seedDatabaseHandler now s =
     (case seed_loop now sampleUsers (0, 0, []) (db s) of
        ((createdCount, skippedCount, errs), d) \<Rightarrow>
          (\<lparr>status = (if length errs > 0 \<and> createdCount = 0
                       then StatusInternalServerError else StatusOK),
            body = JSeed \<lparr>message = ''Database seeding completed'',
                          totalUsers = length sampleUsers,
                          created = createdCount,
                          skipped = skippedCount,
                          errors = errs,
                          errorCount = length errs\<rparr>\<rparr>,
           s\<lparr>db := d\<rparr>))"

subsection \<open>Feature flag handlers\<close>

text \<open>\<^verbatim>\<open>getFeatureFlagsHandler\<close>, GET /api/feature-flags.\<close>

definition store_all :: "FeatureFlag list \<Rightarrow> (string \<rightharpoonup> FeatureFlag) \<Rightarrow> (string \<rightharpoonup> FeatureFlag)" where
  "store_all flags cache = fold (\<lambda>flag c. c(Key flag \<mapsto> flag)) flags cache"

definition getFeatureFlagsHandler :: "server \<Rightarrow> response \<times> server" where
  "getFeatureFlagsHandler s =
     (case db_find_flags (db s) of
        (Inl err, d) \<Rightarrow>
          (http_Error (''Database error: '' @ err_text err) StatusInternalServerError, s\<lparr>db := d\<rparr>)
      | (Inr flags, d) \<Rightarrow>
          (\<lparr>status = StatusOK, body = JFlags flags\<rparr>,
           s\<lparr>db := d, flagCache := store_all flags (flagCache s)\<rparr>))"

text \<open>\<^verbatim>\<open>getFeatureFlagHandler\<close>, GET /api/feature-flags/{key}.\<close>

definition getFeatureFlagHandler :: "string \<Rightarrow> server \<Rightarrow> response \<times> server" where
  "getFeatureFlagHandler key s =
     (case flagCache s key of
        Some cached \<Rightarrow> (\<lparr>status = StatusOK, body = JFlag cached\<rparr>, s)
      | None \<Rightarrow>
          (case db_first_flag key 0 (db s) of
             (Inl err, d) \<Rightarrow>
               (if err = ErrRecordNotFound
                then (http_Error ''Feature flag not found'' StatusNotFound, s\<lparr>db := d\<rparr>)
                else (http_Error (''Database error: '' @ err_text err) StatusInternalServerError,
                      s\<lparr>db := d\<rparr>))
           | (Inr flag, d) \<Rightarrow>
               (\<lparr>status = StatusOK, body = JFlag flag\<rparr>,
                s\<lparr>db := d, flagCache := (flagCache s)(key \<mapsto> flag)\<rparr>)))"

text \<open>\<^verbatim>\<open>createFeatureFlagHandler\<close>, POST /api/feature-flags.\<close>

definition createFeatureFlagHandler :: "time \<Rightarrow> FeatureFlag option \<Rightarrow> server \<Rightarrow> response \<times> server" where
  "createFeatureFlagHandler now decoded s =
     (case decoded of
        None \<Rightarrow> (http_Error ''Invalid request body'' StatusBadRequest, s)
      | Some flag \<Rightarrow>
          (if Key flag = [] \<or> FeatureFlag.Name flag = []
           then (http_Error ''Key and name are required'' StatusBadRequest, s)
           else (case db_create_flag now flag (db s) of
                   (Inl err, d) \<Rightarrow>
                     (http_Error (''Failed to create feature flag: '' @ err_text err)
                        StatusInternalServerError,
                      s\<lparr>db := d\<rparr>)
                 | (Inr flag', d) \<Rightarrow>
                     (\<lparr>status = StatusCreated, body = JFlag flag'\<rparr>,
                      s\<lparr>db := d, flagCache := (flagCache s)(Key flag' \<mapsto> flag')\<rparr>))))"

text \<open>
  \<^verbatim>\<open>updateFeatureFlagHandler\<close>, PATCH /api/feature-flags/{key}. The error of the reload
  is not looked at: when it fails, \<^verbatim>\<open>flag\<close> keeps what \<^verbatim>\<open>Updates\<close> left in it. \<open>co\<close> is
  what the layers under the handler make of the values of the map (see \<open>db_updates_flag\<close>).
\<close>

definition updateFeatureFlagHandler ::
    "coercion \<Rightarrow> time \<Rightarrow> string \<Rightarrow> (string \<times> json) list option \<Rightarrow> server
       \<Rightarrow> response \<times> server" where
  "updateFeatureFlagHandler co now key decoded s =
     (case decoded of
        None \<Rightarrow> (http_Error ''Invalid request body'' StatusBadRequest, s)
      | Some updates \<Rightarrow>
          (case db_first_flag key 0 (db s) of
             (Inl err, d) \<Rightarrow>
               (if err = ErrRecordNotFound
                then (http_Error ''Feature flag not found'' StatusNotFound, s\<lparr>db := d\<rparr>)
                else (http_Error (''Database error: '' @ err_text err) StatusInternalServerError,
                      s\<lparr>db := d\<rparr>))
           | (Inr flag, d) \<Rightarrow>
               (case db_updates_flag co now flag updates d of
                  (Inl err, d') \<Rightarrow>
                    (http_Error (''Failed to update feature flag: '' @ err_text err)
                       StatusInternalServerError,
                     s\<lparr>db := d'\<rparr>)
                | (Inr flag', d') \<Rightarrow>
                    (case db_first_flag key (FeatureFlag.ID flag') d' of
                       (reloaded, d'') \<Rightarrow>
                         (let flag'' = (case reloaded of Inr r \<Rightarrow> r | Inl err \<Rightarrow> flag')
                          in (\<lparr>status = StatusOK, body = JFlag flag''\<rparr>,
                              s\<lparr>db := d'', flagCache := (flagCache s)(key \<mapsto> flag'')\<rparr>))))))"

subsection \<open>Zone health\<close>

text \<open>
  \<^verbatim>\<open>checkZoneHealth\<close>. The outcome of \<^verbatim>\<open>client.Get(url)\<close> is given by the environment:
  an error, or a response with its status code. \<open>fmt_d\<close> is \<^verbatim>\<open>%d\<close>.
\<close>

datatype get_result = GetError string | GetResponse int

fun fmt_nat :: "nat \<Rightarrow> string" where
  "fmt_nat n = (if n < 10 then [''0123456789'' ! n]
                else fmt_nat (n div 10) @ [''0123456789'' ! (n mod 10)])"

definition fmt_d :: "int \<Rightarrow> string" where
  "fmt_d i = (if i < 0 then CHR ''-'' # fmt_nat (nat (- i)) else fmt_nat (nat i))"

definition checkZoneHealth :: "(string \<Rightarrow> get_result) \<Rightarrow> time \<Rightarrow> string \<Rightarrow> string \<Rightarrow> ZoneStatus" where
  "checkZoneHealth client_Get now name url =
     (case client_Get url of
        GetError err \<Rightarrow>
          \<lparr>ZoneStatus.Name = name, Status = ''unhealthy'', URL = url, LastCheck = now,
           Message = ''Connection failed: '' @ err\<rparr>
      | GetResponse StatusCode \<Rightarrow>
          (if StatusCode = 200
           then \<lparr>ZoneStatus.Name = name, Status = ''healthy'', URL = url, LastCheck = now,
                 Message = ''Zone is responding''\<rparr>
           else \<lparr>ZoneStatus.Name = name, Status = ''degraded'', URL = url, LastCheck = now,
                 Message = ''HTTP '' @ fmt_d StatusCode\<rparr>))"

text \<open>
  What "the numeric status code" in a message means: \<open>is_decimal_of str i\<close> says that
  \<open>str\<close> is the decimal numeral of \<open>i\<close>, a minus sign for a negative number and then
  its digits, most significant first, with no leading zero. It is defined from the
  digits' values, not from \<open>fmt_d\<close>.
\<close>

definition is_digit :: "char \<Rightarrow> bool" where
  "is_digit c \<longleftrightarrow> c \<in> set ''0123456789''"

definition digit_value :: "char \<Rightarrow> nat" where
  "digit_value c = of_char c - 48"

definition decimal_value :: "string \<Rightarrow> nat" where
  "decimal_value ds = foldl (\<lambda>a c. 10 * a + digit_value c) 0 ds"

definition is_decimal_of :: "string \<Rightarrow> int \<Rightarrow> bool" where
  "is_decimal_of str i \<longleftrightarrow>
     (let ds = (if i < 0 then tl str else str)
      in (i < 0 \<longrightarrow> str \<noteq> [] \<and> hd str = CHR ''-'') \<and>
         ds \<noteq> [] \<and> list_all is_digit ds \<and>
         (1 < length ds \<longrightarrow> hd ds \<noteq> CHR ''0'') \<and>
         decimal_value ds = nat \<bar>i\<bar>)"

subsection \<open>The calls of a seeding\<close>

text \<open>
  What "attempts all five insertions" means: \<open>seed_calls\<close> runs the find-or-create of
  every sample user in turn on the datastore the call before left, whatever that call
  returned, and lists the five results. A call is created, skipped or failed by its
  result; \<open>created_rows\<close> are the rows the created calls returned, \<open>call_errors\<close> the
  messages of the failed ones, and \<open>call_outcome\<close> says that a failed call is named in
  the error list and that the row of any other call is stored under the user's email.
\<close>

fun seed_calls ::
    "time \<Rightarrow> User list \<Rightarrow> datastore \<Rightarrow> (db_error + User \<times> nat) list \<times> datastore" where
  "seed_calls now [] d = ([], d)"
| "seed_calls now (user # rest) d =
     (case db_first_or_create_user now (Email user) user d of
        (res, d') \<Rightarrow> (case seed_calls now rest d' of (rs, d'') \<Rightarrow> (res # rs, d'')))"

fun call_created :: "db_error + User \<times> nat \<Rightarrow> bool" where
  "call_created (Inr (r, rowsAffected)) = (rowsAffected > 0)"
| "call_created (Inl e) = False"

fun call_skipped :: "db_error + User \<times> nat \<Rightarrow> bool" where
  "call_skipped (Inr (r, rowsAffected)) = (rowsAffected = 0)"
| "call_skipped (Inl e) = False"

fun call_failed :: "db_error + User \<times> nat \<Rightarrow> bool" where
  "call_failed (Inr p) = False"
| "call_failed (Inl e) = True"

fun created_rows :: "(db_error + User \<times> nat) list \<Rightarrow> User list" where
  "created_rows [] = []"
| "created_rows (res # rs) =
     (case res of Inr (r, rowsAffected) \<Rightarrow> (if rowsAffected > 0 then [r] else []) | Inl e \<Rightarrow> [])
     @ created_rows rs"

fun call_errors :: "User list \<Rightarrow> (db_error + User \<times> nat) list \<Rightarrow> string list" where
  "call_errors (u # us) (Inl e # rs) =
     (''Error creating user '' @ Email u @ '': '' @ err_text e) # call_errors us rs"
| "call_errors (u # us) (Inr p # rs) = call_errors us rs"
| "call_errors us rs = []"

definition call_outcome :: "User list \<Rightarrow> string list \<Rightarrow> User \<Rightarrow> db_error + User \<times> nat \<Rightarrow> bool" where
  "call_outcome rows errs u res =
     (case res of
        Inl e \<Rightarrow> (''Error creating user '' @ Email u @ '': '' @ err_text e) \<in> set errs
      | Inr (r, rowsAffected) \<Rightarrow> r \<in> set rows \<and> Email r = Email u)"

subsection \<open>Reading a column, and the states used in the examples\<close>

text \<open>The value of a column of a flag row.\<close>

fun column_value :: "column \<Rightarrow> FeatureFlag \<Rightarrow> cell" where
  "column_value ColID f = VNat (FeatureFlag.ID f)"
| "column_value ColKey f = VText (Key f)"
| "column_value ColName f = VText (FeatureFlag.Name f)"
| "column_value ColDescription f = VText (Description f)"
| "column_value ColEnabled f = VBool (Enabled f)"
| "column_value ColCreatedAt f = VTime (FeatureFlag.CreatedAt f)"
| "column_value ColUpdatedAt f = VTime (FeatureFlag.UpdatedAt f)"

text \<open>
  What a partial update of \<open>old\<close> into \<open>new\<close> by the map at time \<open>now\<close> means: a column
  that no key of the map names keeps its value, except \<^verbatim>\<open>updated_at\<close>, which is then the
  time of the update; a column whose key carries a value of the column's JSON type has
  that value.
\<close>

definition patched :: "time \<Rightarrow> (string \<times> json) list \<Rightarrow> FeatureFlag \<Rightarrow> FeatureFlag \<Rightarrow> bool" where
  "patched now updates old new \<longleftrightarrow>
     (\<forall>c. Some c \<notin> column_of ` fst ` set updates \<and> c \<noteq> ColUpdatedAt \<longrightarrow>
          column_value c new = column_value c old) \<and>
     (Some ColUpdatedAt \<notin> column_of ` fst ` set updates \<longrightarrow> FeatureFlag.UpdatedAt new = now) \<and>
     (\<forall>(k, v) \<in> set updates. \<forall>c x. column_of k = Some c \<and> typed_cell c v = Some x \<longrightarrow>
          column_value c new = x)"


text \<open>
  Two instances of the parameter \<open>co\<close>, for the examples: one under which no value of
  another type is accepted, and one that takes a positive number for the id, stores a
  null description as the empty text and reads a string of digits as a timestamp.
\<close>

definition strict_coercion :: coercion where
  "strict_coercion = \<lparr>in_db = (\<lambda>c v. None), in_memory = (\<lambda>c v. None)\<rparr>"

definition lenient :: "column \<Rightarrow> json \<Rightarrow> cell option" where
  "lenient c v =
     (case (c, v) of
        (ColID, JNumber n) \<Rightarrow> (if 0 < n then Some (VNat (nat n)) else None)
      | (ColDescription, JNull) \<Rightarrow> Some (VText [])
      | (ColCreatedAt, JString s) \<Rightarrow>
          (if s \<noteq> [] \<and> list_all is_digit s then Some (VTime (decimal_value s)) else None)
      | (ColUpdatedAt, JString s) \<Rightarrow>
          (if s \<noteq> [] \<and> list_all is_digit s then Some (VTime (decimal_value s)) else None)
      | _ \<Rightarrow> None)"

definition lenient_coercion :: coercion where
  "lenient_coercion = \<lparr>in_db = lenient, in_memory = lenient\<rparr>"

text \<open>The server after start-up on an empty database, and one with a single flag.\<close>

definition empty_datastore :: datastore where
  "empty_datastore =
     \<lparr>users = [], users_id_seq = 0, feature_flags = [], feature_flags_id_seq = 0, conn = []\<rparr>"

definition fresh_server :: server where
  "fresh_server = \<lparr>db = empty_datastore, flagCache = Map.empty\<rparr>"

text \<open>
  A decoded request body for a new flag, the row it becomes at time 1 on the empty
  database, the server after that request, and the same server after a restart (the
  cache is empty again).
\<close>

definition dashboard_flag :: FeatureFlag where
  "dashboard_flag =
     \<lparr>FeatureFlag.ID = 0, Key = ''new_dashboard'', Name = ''New Dashboard'',
      Description = ''Shows the new dashboard'', Enabled = False, CreatedAt = 0, UpdatedAt = 0\<rparr>"

definition stored_dashboard_flag :: FeatureFlag where
  "stored_dashboard_flag =
     dashboard_flag\<lparr>FeatureFlag.ID := 1, FeatureFlag.CreatedAt := 1, FeatureFlag.UpdatedAt := 1\<rparr>"

definition one_flag_server :: server where
  "one_flag_server = snd (createFeatureFlagHandler 1 (Some dashboard_flag) fresh_server)"

definition cold_server :: server where
  "cold_server = one_flag_server\<lparr>flagCache := Map.empty\<rparr>"

text \<open>
  The server after one seeding at time 1, and the same with the connection failing on
  the next statement.
\<close>

definition seeded_server :: server where
  "seeded_server = snd (seedDatabaseHandler 1 fresh_server)"

definition faulty_seeded_server :: server where
  "faulty_seeded_server = seeded_server\<lparr>db := (db seeded_server)\<lparr>conn := [Some ''connection refused'']\<rparr>\<rparr>"

text \<open>
  The server after a POST /api/users that gave the id 1 itself (the id sequence is still
  at 0), and the server after a POST /api/users that left the id to the sequence.
\<close>

definition explicit_id_server :: server where
  "explicit_id_server =
     snd (createUserHandler 1
       (Some \<lparr>User.ID = 1, Email = ''zed@example.com'', Name = ''Zed'', CreatedAt = 0, UpdatedAt = 0\<rparr>)
       fresh_server)"

definition dave_server :: server where
  "dave_server =
     snd (createUserHandler 1
       (Some \<lparr>User.ID = 0, Email = ''dave@example.com'', Name = ''Dave'', CreatedAt = 0, UpdatedAt = 0\<rparr>)
       fresh_server)"

declare fmt_nat.simps [simp del]

section \<open>The datastore operations\<close>

lemma next_stmt_Nil: "conn d = [] \<Longrightarrow> next_stmt d = (None, d)"
  by (simp add: next_stmt_def)

lemma first_row_None: "first_row pk P rows = None \<longleftrightarrow> (\<forall>r \<in> set rows. \<not> P r)"
  by (auto simp: first_row_def find_None_iff)

lemma first_row_Some: "first_row pk P rows = Some r \<Longrightarrow> r \<in> set rows \<and> P r"
  by (auto simp: first_row_def find_Some_iff) (metis nth_mem set_sort length_sort)

lemma first_row_exists: "r0 \<in> set rows \<Longrightarrow> P r0 \<Longrightarrow> \<exists>r. first_row pk P rows = Some r"
  using first_row_None [of pk P rows] by (cases "first_row pk P rows") auto

lemma db_create_user_users:
  "db_create_user now u d = (res, d') \<Longrightarrow>
     feature_flags d' = feature_flags d \<and>
     (case res of
        Inl e \<Rightarrow> users d' = users d
      | Inr row \<Rightarrow> users d' = users d @ [row] \<and> Email row = Email u \<and> User.Name row = User.Name u
          \<and> Email u \<notin> Email ` set (users d))"
  by (auto simp: db_create_user_def next_stmt_def Let_def split: list.splits option.splits if_splits)

lemma db_create_user_fresh:
  assumes "conn d = []" and "\<forall>r \<in> set (users d). User.ID r \<le> users_id_seq d"
    and "Email u \<notin> Email ` set (users d)" and "User.ID u = 0"
  shows "\<exists>row. db_create_user now u d =
           (Inr row, d\<lparr>users_id_seq := users_id_seq d + 1, users := users d @ [row]\<rparr>) \<and>
         Email row = Email u \<and> user_conds u row \<and> User.ID row = users_id_seq d + 1"
proof -
  have "users_id_seq d + 1 \<notin> User.ID ` set (users d)"
    using assms(2) by fastforce
  then show ?thesis
    using assms by (simp add: db_create_user_def next_stmt_Nil Let_def user_conds_def)
qed

lemma foc_fresh:
  assumes "conn d = []" and "\<forall>r \<in> set (users d). User.ID r \<le> users_id_seq d"
    and "Email u \<notin> Email ` set (users d)" and "User.ID u = 0"
  shows "\<exists>row. db_first_or_create_user now (Email u) u d =
           (Inr (row, 1), d\<lparr>users_id_seq := users_id_seq d + 1, users := users d @ [row]\<rparr>) \<and>
         Email row = Email u \<and> user_conds u row \<and> User.ID row = users_id_seq d + 1"
proof -
  have "first_row User.ID (\<lambda>r. Email r = Email u \<and> user_conds u r) (users d) = None"
    using assms(3) by (simp add: first_row_None) (metis image_eqI)
  moreover obtain row where
    "db_create_user now u d =
       (Inr row, d\<lparr>users_id_seq := users_id_seq d + 1, users := users d @ [row]\<rparr>)"
    "Email row = Email u" "user_conds u row" "User.ID row = users_id_seq d + 1"
    using db_create_user_fresh [OF assms] by blast
  ultimately show ?thesis
    using assms(1) by (simp add: db_first_or_create_user_def next_stmt_Nil)
qed

lemma foc_found:
  assumes "conn d = []" and "r0 \<in> set (users d)" and "Email r0 = Email u" and "user_conds u r0"
  shows "\<exists>r. db_first_or_create_user now (Email u) u d = (Inr (r, 0), d)"
proof -
  obtain r where "first_row User.ID (\<lambda>r. Email r = Email u \<and> user_conds u r) (users d) = Some r"
    using first_row_exists [of r0 "users d" "\<lambda>r. Email r = Email u \<and> user_conds u r" User.ID] assms
    by blast
  then show ?thesis
    using assms(1) by (simp add: db_first_or_create_user_def next_stmt_Nil)
qed

lemma foc_effect:
  "db_first_or_create_user now (Email u) u d = (res, d') \<Longrightarrow>
     set (users d) \<subseteq> set (users d') \<and> feature_flags d' = feature_flags d \<and>
     (\<forall>r n. res = Inr (r, n) \<longrightarrow> r \<in> set (users d') \<and> Email r = Email u)"
  apply (simp add: db_first_or_create_user_def split: prod.splits option.splits sum.splits)
  apply (auto simp: next_stmt_def split: list.splits dest!: db_create_user_users first_row_Some)
  done

section \<open>Seeding\<close>

lemma sampleUsers_facts:
  "length sampleUsers = 5" "distinct (map Email sampleUsers)" "\<forall>u \<in> set sampleUsers. User.ID u = 0"
  by (simp_all add: sampleUsers_def)

lemma seed_loop_counts:
  "seed_loop now us (c, k, es) d = ((c', k', es'), d') \<Longrightarrow>
     c' + k' + length es' = c + k + length es + length us"
proof (induction us arbitrary: c k es d)
  case Nil
  then show ?case by simp
next
  case (Cons u us)
  then show ?case
    by (auto split: prod.splits sum.splits if_splits)
qed

lemma seed_loop_found:
  assumes "conn d = []"
    and "\<forall>u \<in> set us. \<exists>r \<in> set (users d). Email r = Email u \<and> user_conds u r"
  shows "seed_loop now us (c, k, es) d = ((c, k + length us, es), d)"
  using assms
proof (induction us arbitrary: k)
  case Nil
  then show ?case by simp
next
  case (Cons u us)
  obtain r0 where "r0 \<in> set (users d)" "Email r0 = Email u" "user_conds u r0"
    using Cons.prems(2) by auto
  then obtain r where "db_first_or_create_user now (Email u) u d = (Inr (r, 0), d)"
    using foc_found [OF Cons.prems(1)] by blast
  moreover have "seed_loop now us (c, Suc k, es) d = ((c, Suc k + length us, es), d)"
    using Cons.IH [of "Suc k"] Cons.prems by simp
  ultimately show ?case by simp
qed

lemma seed_loop_fresh:
  assumes "conn d = []"
    and "\<forall>r \<in> set (users d). User.ID r \<le> users_id_seq d"
    and "distinct (map Email us)"
    and "\<forall>u \<in> set us. Email u \<notin> Email ` set (users d) \<and> User.ID u = 0"
  shows "\<exists>d'. seed_loop now us (c, k, es) d = ((c + length us, k, es), d') \<and>
              conn d' = [] \<and> feature_flags d' = feature_flags d \<and>
              set (users d) \<subseteq> set (users d') \<and>
              (\<forall>u \<in> set us. \<exists>r \<in> set (users d'). Email r = Email u \<and> user_conds u r)"
  using assms
proof (induction us arbitrary: c d)
  case Nil
  then show ?case by simp
next
  case (Cons u us)
  have u: "Email u \<notin> Email ` set (users d)" "User.ID u = 0"
    using Cons.prems(4) by simp_all
  define d1 where "d1 row = d\<lparr>users_id_seq := users_id_seq d + 1, users := users d @ [row]\<rparr>" for row
  obtain row where step: "db_first_or_create_user now (Email u) u d = (Inr (row, 1), d1 row)"
    and row: "Email row = Email u" "user_conds u row" "User.ID row = users_id_seq d + 1"
    using foc_fresh [OF Cons.prems(1,2) u] unfolding d1_def by blast
  have c1: "conn (d1 row) = []"
    using Cons.prems(1) by (simp add: d1_def)
  have c2: "\<forall>r \<in> set (users (d1 row)). User.ID r \<le> users_id_seq (d1 row)"
    using Cons.prems(2) row(3) by (auto simp: d1_def le_SucI)
  have c3: "distinct (map Email us)"
    using Cons.prems(3) by simp
  have c4: "\<forall>v \<in> set us. Email v \<notin> Email ` set (users (d1 row)) \<and> User.ID v = 0"
    using Cons.prems(3,4) row(1) by (auto simp: d1_def) (metis image_eqI)
  obtain d' where rest: "seed_loop now us (c + 1, k, es) (d1 row) = ((c + 1 + length us, k, es), d')"
    and d': "conn d' = []" "feature_flags d' = feature_flags (d1 row)"
      "set (users (d1 row)) \<subseteq> set (users d')"
      "\<forall>v \<in> set us. \<exists>r \<in> set (users d'). Email r = Email v \<and> user_conds v r"
    using Cons.IH [OF c1 c2 c3 c4, of "c + 1"] by blast
  have "seed_loop now (u # us) (c, k, es) d = ((c + length (u # us), k, es), d')"
    using step rest by simp
  moreover have "row \<in> set (users d')" "set (users d) \<subseteq> set (users d')"
    using d'(3) by (auto simp: d1_def)
  moreover have "feature_flags d' = feature_flags d"
    using d'(2) by (simp add: d1_def)
  ultimately show ?case
    using d'(1,4) row(1,2) by auto
qed

lemma dave_server_db:
  "users (db dave_server) =
     [\<lparr>User.ID = 1, Email = ''dave@example.com'', Name = ''Dave'', CreatedAt = 1, UpdatedAt = 1\<rparr>]"
  "users_id_seq (db dave_server) = 1" "conn (db dave_server) = []"
  by (simp_all add: dave_server_def createUserHandler_def db_create_user_def next_stmt_def
      fresh_server_def empty_datastore_def Let_def)

lemma explicit_id_server_db:
  "users (db explicit_id_server) =
     [\<lparr>User.ID = 1, Email = ''zed@example.com'', Name = ''Zed'', CreatedAt = 1, UpdatedAt = 1\<rparr>]"
  "users_id_seq (db explicit_id_server) = 0" "conn (db explicit_id_server) = []"
  by (simp_all add: explicit_id_server_def createUserHandler_def db_create_user_def next_stmt_def
      fresh_server_def empty_datastore_def Let_def)

lemma explicit_id_server_eq:
  "explicit_id_server =
     \<lparr>db = \<lparr>users = [\<lparr>User.ID = 1, Email = ''zed@example.com'', Name = ''Zed'', CreatedAt = 1,
                        UpdatedAt = 1\<rparr>],
            users_id_seq = 0, feature_flags = [], feature_flags_id_seq = 0, conn = []\<rparr>,
      flagCache = Map.empty\<rparr>"
  by (simp add: explicit_id_server_def createUserHandler_def db_create_user_def next_stmt_def
      fresh_server_def empty_datastore_def Let_def)

text \<open>
  C8, as amended. Seeding twice. The datastore starts with none of the five sample
  emails, answers every statement (no connection fault is pending) and has its user id
  sequence at or above every stored id, as it is when no user was posted with an id of
  its own ahead of the sequence. Then the first call of POST /api/seed answers 200 with
  created = 5 and skipped = 0, the second call answers 200 with created = 0 and
  skipped = 5, and the second call returns the server state it was given: the
  datastore is unchanged.
\<close>

theorem seed_twice_idempotent:
  assumes "\<forall>u \<in> set sampleUsers. Email u \<notin> Email ` set (users (db s))"
    and "conn (db s) = []"
    and "\<forall>r \<in> set (users (db s)). User.ID r \<le> users_id_seq (db s)"
  shows "\<exists>rep1 s1 rep2.
           seedDatabaseHandler now1 s = (\<lparr>status = StatusOK, body = JSeed rep1\<rparr>, s1) \<and>
           created rep1 = 5 \<and> skipped rep1 = 0 \<and> errors rep1 = [] \<and>
           seedDatabaseHandler now2 s1 = (\<lparr>status = StatusOK, body = JSeed rep2\<rparr>, s1) \<and>
           created rep2 = 0 \<and> skipped rep2 = 5 \<and> errors rep2 = []"
proof -
  have fresh: "\<forall>u \<in> set sampleUsers. Email u \<notin> Email ` set (users (db s)) \<and> User.ID u = 0"
    using assms(1) sampleUsers_facts(3) by blast
  obtain d' where first: "seed_loop now1 sampleUsers (0, 0, []) (db s) = ((0 + length sampleUsers, 0, []), d')"
    and d': "conn d' = []"
      "\<forall>u \<in> set sampleUsers. \<exists>r \<in> set (users d'). Email r = Email u \<and> user_conds u r"
    using seed_loop_fresh [OF assms(2,3) sampleUsers_facts(2) fresh, of now1 0 0 "[]"] by blast
  have second: "seed_loop now2 sampleUsers (0, 0, []) d' = ((0, 0 + length sampleUsers, []), d')"
    by (rule seed_loop_found [OF d'])
  show ?thesis
    using first second
    by (simp add: seedDatabaseHandler_def sampleUsers_facts(1))
qed

theorem seed_twice_idempotent_witness:
  "\<exists>rep1 s1 rep2.
     seedDatabaseHandler 2 dave_server = (\<lparr>status = StatusOK, body = JSeed rep1\<rparr>, s1) \<and>
     created rep1 = 5 \<and> skipped rep1 = 0 \<and> errors rep1 = [] \<and>
     seedDatabaseHandler 3 s1 = (\<lparr>status = StatusOK, body = JSeed rep2\<rparr>, s1) \<and>
     created rep2 = 0 \<and> skipped rep2 = 5 \<and> errors rep2 = []"
proof -
  have h: "\<forall>u \<in> set sampleUsers. Email u \<notin> Email ` set (users (db dave_server))"
    "conn (db dave_server) = []"
    "\<forall>r \<in> set (users (db dave_server)). User.ID r \<le> users_id_seq (db dave_server)"
    by (simp_all add: dave_server_db sampleUsers_def)
  from seed_twice_idempotent [OF h] show ?thesis .
qed

text \<open>
  C8 as stated fails: after a POST /api/users with the id 1 in its body the datastore
  holds none of the five sample emails, yet the first seeding creates four users and
  reports one error, because the id the sequence gives to the first sample user is
  taken.
\<close>

theorem seed_twice_counterexample:
  "map Email (users (db explicit_id_server)) = [''zed@example.com''] \<and>
   conn (db explicit_id_server) = [] \<and>
   fst (seedDatabaseHandler 2 explicit_id_server) =
     \<lparr>status = StatusOK,
      body = JSeed \<lparr>message = ''Database seeding completed'', totalUsers = 5, created = 4, skipped = 0,
                    errors = [''Error creating user alice@example.com: '' @ pkey_violation ''users''],
                    errorCount = 1\<rparr>\<rparr>"
  by (simp add: explicit_id_server_eq seedDatabaseHandler_def sampleUsers_def
      db_first_or_create_user_def db_create_user_def next_stmt_def first_row_def user_conds_def
      StatusInternalServerError_def StatusOK_def Let_def)

text \<open>
  C10. Every response of POST /api/seed has created + skipped + errorCount = totalUsers
  and totalUsers = 5: each sample user is counted once, as created, skipped or failed.
\<close>

theorem seed_counts_partition:
  "\<exists>rep. body (fst (seedDatabaseHandler now s)) = JSeed rep \<and>
         created rep + skipped rep + errorCount rep = totalUsers rep \<and> totalUsers rep = 5"
proof -
  obtain c k es d where L: "seed_loop now sampleUsers (0, 0, []) (db s) = ((c, k, es), d)"
    by (metis prod_cases3 surj_pair)
  from seed_loop_counts [OF L] have "c + k + length es = length sampleUsers" by simp
  then show ?thesis
    by (simp add: seedDatabaseHandler_def L sampleUsers_facts(1))
qed

theorem seed_counts_partition_witness:
  "\<exists>rep. body (fst (seedDatabaseHandler 1 fresh_server)) = JSeed rep \<and>
         created rep + skipped rep + errorCount rep = totalUsers rep \<and> totalUsers rep = 5"
  using seed_counts_partition [of 1 fresh_server] by simp

lemma foc_call:
  "db_first_or_create_user now (Email u) u d = (res, d') \<Longrightarrow>
     (case res of
        Inl e \<Rightarrow> users d' = users d
      | Inr (r, n) \<Rightarrow> Email r = Email u \<and>
          (if n > 0 then users d' = users d @ [r] else users d' = users d \<and> r \<in> set (users d)))"
  apply (simp add: db_first_or_create_user_def split: prod.splits option.splits sum.splits)
  apply (auto simp: next_stmt_def split: list.splits dest!: db_create_user_users first_row_Some)
  done

lemma seed_calls_length: "seed_calls now us d = (rs, d') \<Longrightarrow> length rs = length us"
  by (induction us arbitrary: d rs) (auto split: prod.splits)

lemma seed_loop_calls:
  "seed_calls now us d = (rs, d') \<Longrightarrow>
     seed_loop now us (c, k, es) d =
       ((c + length (filter call_created rs), k + length (filter call_skipped rs),
         es @ call_errors us rs), d')"
proof (induction us arbitrary: d rs c k es)
  case Nil
  then show ?case by simp
next
  case (Cons u us)
  obtain res d1 where step: "db_first_or_create_user now (Email u) u d = (res, d1)"
    by (cases "db_first_or_create_user now (Email u) u d") auto
  obtain rs1 where rest: "seed_calls now us d1 = (rs1, d')" and rs: "rs = res # rs1"
    using Cons.prems step by (auto split: prod.splits)
  show ?case
  proof (cases res)
    case (Inl e)
    with step rs Cons.IH [OF rest] show ?thesis by simp
  next
    case (Inr p)
    obtain r n where "p = (r, n)" by (cases p)
    with Inr step rs Cons.IH [OF rest] show ?thesis by simp
  qed
qed

lemma call_errors_length:
  "length rs = length us \<Longrightarrow> length (call_errors us rs) = length (filter call_failed rs)"
  by (induction us rs rule: call_errors.induct) auto

lemma call_errors_Nil:
  assumes "length rs = length us"
  shows "call_errors us rs = [] \<longleftrightarrow> (\<forall>res \<in> set rs. \<not> call_failed res)"
proof -
  have "call_errors us rs = [] \<longleftrightarrow> length (call_errors us rs) = 0" by simp
  also have "\<dots> \<longleftrightarrow> filter call_failed rs = []"
    unfolding call_errors_length [OF assms] by simp
  finally show ?thesis by (simp add: filter_empty_conv)
qed

lemma seed_calls_rows:
  "seed_calls now us d = (rs, d') \<Longrightarrow> users d' = users d @ created_rows rs"
proof (induction us arbitrary: d rs)
  case Nil
  then show ?case by simp
next
  case (Cons u us)
  obtain res d1 where step: "db_first_or_create_user now (Email u) u d = (res, d1)"
    by (cases "db_first_or_create_user now (Email u) u d") auto
  obtain rs1 where rest: "seed_calls now us d1 = (rs1, d')" and rs: "rs = res # rs1"
    using Cons.prems step by (auto split: prod.splits)
  from foc_call [OF step] Cons.IH [OF rest] rs show ?case
    by (auto split: sum.splits prod.splits if_splits)
qed

lemma created_rows_length: "length (created_rows rs) = length (filter call_created rs)"
  by (induction rs) (auto split: sum.splits)

lemma call_outcome_mono:
  "call_outcome rows errs u res \<Longrightarrow> set rows \<subseteq> set rows' \<Longrightarrow> set errs \<subseteq> set errs' \<Longrightarrow>
     call_outcome rows' errs' u res"
  by (auto simp: call_outcome_def split: sum.splits)

lemma seed_calls_outcomes:
  "seed_calls now us d = (rs, d') \<Longrightarrow>
     list_all2 (call_outcome (users d') (call_errors us rs)) us rs"
proof (induction us arbitrary: d rs)
  case Nil
  then show ?case by simp
next
  case (Cons u us)
  obtain res d1 where step: "db_first_or_create_user now (Email u) u d = (res, d1)"
    by (cases "db_first_or_create_user now (Email u) u d") auto
  obtain rs1 where rest: "seed_calls now us d1 = (rs1, d')" and rs: "rs = res # rs1"
    using Cons.prems step by (auto split: prod.splits)
  have rows: "users d' = users d1 @ created_rows rs1"
    by (rule seed_calls_rows [OF rest])
  have sub: "set (call_errors us rs1) \<subseteq> set (call_errors (u # us) rs)"
    unfolding rs by (cases res) auto
  have tail: "list_all2 (call_outcome (users d') (call_errors (u # us) rs)) us rs1"
    using Cons.IH [OF rest] sub
    by (auto elim!: list_all2_mono intro: call_outcome_mono)
  have head: "call_outcome (users d') (call_errors (u # us) rs) u res"
    using foc_call [OF step] rows rs
    by (auto simp: call_outcome_def split: sum.splits prod.splits if_splits)
  from head tail rs show ?case by simp
qed

text \<open>
  C3, as amended. POST /api/seed makes the find-or-create call of every one of the five
  sample users, each on the datastore the call before left, whatever that call
  returned (\<open>seed_calls\<close>), and the datastore it leaves is the one the fifth call left.
  created is the number of calls that inserted a row, skipped the number that found
  one, errorCount the number that failed, and errors the messages of the failed calls
  in order: errors are data of the response. The users table afterwards is the table
  before followed by the rows the created calls inserted, created of them. Every
  sample user is afterwards stored under its email or named in an error message. The
  status is 500 exactly when at least one call failed and no call inserted a row, and
  200 otherwise.
\<close>

theorem seed_status_best_effort:
  "\<exists>rs d' rep.
     seed_calls now sampleUsers (db s) = (rs, d') \<and>
     seedDatabaseHandler now s =
       (\<lparr>status = (if (\<exists>res \<in> set rs. call_failed res) \<and> \<not> (\<exists>res \<in> set rs. call_created res)
                   then StatusInternalServerError else StatusOK),
         body = JSeed rep\<rparr>, s\<lparr>db := d'\<rparr>) \<and>
     totalUsers rep = 5 \<and>
     created rep = length (filter call_created rs) \<and>
     skipped rep = length (filter call_skipped rs) \<and>
     errorCount rep = length (filter call_failed rs) \<and>
     errors rep = call_errors sampleUsers rs \<and>
     users d' = users (db s) @ created_rows rs \<and>
     length (created_rows rs) = created rep \<and>
     list_all2 (call_outcome (users d') (errors rep)) sampleUsers rs"
proof -
  obtain rs d' where calls: "seed_calls now sampleUsers (db s) = (rs, d')"
    by (cases "seed_calls now sampleUsers (db s)") auto
  note len = seed_calls_length [OF calls]
  have loop: "seed_loop now sampleUsers (0, 0, []) (db s) =
      ((length (filter call_created rs), length (filter call_skipped rs),
        call_errors sampleUsers rs), d')"
    using seed_loop_calls [OF calls, of 0 0 "[]"] by simp
  show ?thesis
    using calls seed_calls_rows [OF calls] seed_calls_outcomes [OF calls]
    by (auto simp add: seedDatabaseHandler_def loop call_errors_length [OF len]
        call_errors_Nil [OF len] created_rows_length sampleUsers_facts(1) filter_empty_conv)
qed

theorem seed_status_best_effort_witness:
  "\<exists>rs d' rep.
     seed_calls 2 sampleUsers (db explicit_id_server) = (rs, d') \<and>
     map call_failed rs = [True, False, False, False, False] \<and>
     map call_created rs = [False, True, True, True, True] \<and>
     fst (seedDatabaseHandler 2 explicit_id_server) = \<lparr>status = StatusOK, body = JSeed rep\<rparr> \<and>
     created rep = 4 \<and> skipped rep = 0 \<and> errorCount rep = 1 \<and>
     length (users d') = 5"
proof -
  obtain rs d' where calls: "seed_calls 2 sampleUsers (db explicit_id_server) = (rs, d')"
    by (cases "seed_calls 2 sampleUsers (db explicit_id_server)") auto
  have ev: "map call_failed (fst (seed_calls 2 sampleUsers (db explicit_id_server))) =
      [True, False, False, False, False]"
    "map call_created (fst (seed_calls 2 sampleUsers (db explicit_id_server))) =
      [False, True, True, True, True]"
    "map call_skipped (fst (seed_calls 2 sampleUsers (db explicit_id_server))) =
      [False, False, False, False, False]"
    by (simp_all add: explicit_id_server_eq sampleUsers_def db_first_or_create_user_def
        db_create_user_def next_stmt_def first_row_def user_conds_def Let_def)
  then have m: "map call_failed rs = [True, False, False, False, False]"
    "map call_created rs = [False, True, True, True, True]"
    "map call_skipped rs = [False, False, False, False, False]"
    using calls by simp_all
  have cnt: "length (filter call_failed rs) = 1" "length (filter call_created rs) = 4"
    "length (filter call_skipped rs) = 0"
    "(\<exists>res \<in> set rs. call_created res)"
    using m by (auto simp: map_eq_Cons_conv)
  from seed_status_best_effort [of 2 explicit_id_server] calls
  obtain rep where rep:
    "seedDatabaseHandler 2 explicit_id_server =
       (\<lparr>status = (if (\<exists>res \<in> set rs. call_failed res) \<and> \<not> (\<exists>res \<in> set rs. call_created res)
                   then StatusInternalServerError else StatusOK),
         body = JSeed rep\<rparr>, explicit_id_server\<lparr>db := d'\<rparr>)"
    "created rep = length (filter call_created rs)"
    "skipped rep = length (filter call_skipped rs)"
    "errorCount rep = length (filter call_failed rs)"
    "users d' = users (db explicit_id_server) @ created_rows rs"
    "length (created_rows rs) = created rep"
    by auto
  have "length (users d') = 5"
    using rep(5,6,2) cnt by (simp add: explicit_id_server_db)
  with rep cnt m calls show ?thesis
    by (intro exI [of _ rs], intro exI [of _ d'], intro exI [of _ rep]) simp
qed

text \<open>
  C3 as stated fails: when the five users are already stored and the connection fails
  on the first statement, one find-or-create fails and four are skipped, and the status
  is 500 although four of the five did not fail.
\<close>

theorem seed_status_counterexample:
  "status (fst (seedDatabaseHandler 2 faulty_seeded_server)) = StatusInternalServerError \<and>
   body (fst (seedDatabaseHandler 2 faulty_seeded_server)) =
     JSeed \<lparr>message = ''Database seeding completed'', totalUsers = 5, created = 0, skipped = 4,
            errors = [''Error creating user alice@example.com: connection refused''],
            errorCount = 1\<rparr>"
  by (simp add: seedDatabaseHandler_def faulty_seeded_server_def seeded_server_def fresh_server_def
      empty_datastore_def sampleUsers_def db_first_or_create_user_def db_create_user_def
      next_stmt_def first_row_def user_conds_def StatusInternalServerError_def StatusOK_def Let_def)

section \<open>Users\<close>

lemma db_create_user_dup:
  assumes "Email u \<in> Email ` set (users d)"
  shows "\<exists>e d'. db_create_user now u d = (Inl e, d') \<and> users d' = users d"
  using assms
  by (auto simp: db_create_user_def next_stmt_def Let_def split: list.splits option.splits)

lemma createUserHandler_dup:
  assumes "Email u2 \<in> Email ` set (users (db s))"
  shows "status (fst (createUserHandler now (Some u2) s)) =
           (if Email u2 = [] \<or> User.Name u2 = [] then StatusBadRequest
            else StatusInternalServerError) \<and>
         users (db (snd (createUserHandler now (Some u2) s))) = users (db s)"
proof -
  obtain e d' where "db_create_user now u2 (db s) = (Inl e, d')" "users d' = users (db s)"
    using db_create_user_dup [OF assms] by blast
  then show ?thesis
    by (simp add: createUserHandler_def http_Error_def)
qed

text \<open>
  C9, as amended. Creating a user twice. The datastore holds no user with the email,
  answers every statement and has its id sequence at or above every stored id, as it is
  when no user was posted with an id of its own ahead of the sequence. For a non-empty
  email and name, the first POST /api/users answers 201 with the created user. A second
  POST with the same email answers 500 (400 when its name is empty, for any body with
  that email) and leaves the users table as it was: the first user is still the only
  row with that email.
\<close>

theorem create_user_twice:
  assumes "email \<noteq> []" and "name \<noteq> []"
    and "email \<notin> Email ` set (users (db s))"
    and "conn (db s) = []"
    and "\<forall>r \<in> set (users (db s)). User.ID r \<le> users_id_seq (db s)"
  shows "\<exists>u s1.
           createUserHandler now1
             (Some \<lparr>User.ID = 0, Email = email, Name = name, CreatedAt = 0, UpdatedAt = 0\<rparr>) s =
             (\<lparr>status = StatusCreated, body = JUser u\<rparr>, s1) \<and>
           Email u = email \<and> User.Name u = name \<and>
           filter (\<lambda>r. Email r = email) (users (db s1)) = [u] \<and>
           status (fst (createUserHandler now2
             (Some \<lparr>User.ID = 0, Email = email, Name = name, CreatedAt = 0, UpdatedAt = 0\<rparr>) s1)) =
             StatusInternalServerError \<and>
           (\<forall>u2. Email u2 = email \<longrightarrow>
              status (fst (createUserHandler now2 (Some u2) s1)) \<in>
                {StatusBadRequest, StatusInternalServerError} \<and>
              users (db (snd (createUserHandler now2 (Some u2) s1))) = users (db s1))"
proof -
  define body where "body = \<lparr>User.ID = 0, Email = email, Name = name, CreatedAt = 0, UpdatedAt = 0\<rparr>"
  have b: "Email body = email" "User.Name body = name" "User.ID body = 0"
    by (simp_all add: body_def)
  define d1 where "d1 row = (db s)\<lparr>users_id_seq := users_id_seq (db s) + 1, users := users (db s) @ [row]\<rparr>" for row
  obtain row where ins: "db_create_user now1 body (db s) = (Inr row, d1 row)"
    and row: "Email row = email" "user_conds body row"
    using db_create_user_fresh [OF assms(4,5), of body now1] assms(3) b unfolding d1_def by auto
  have nm: "User.Name row = name"
    using row(2) assms(2) by (simp add: user_conds_def body_def)
  define s1 where "s1 = s\<lparr>db := d1 row\<rparr>"
  have first: "createUserHandler now1 (Some body) s = (\<lparr>status = StatusCreated, body = JUser row\<rparr>, s1)"
    using ins assms(1,2) b by (simp add: createUserHandler_def s1_def)
  have "filter (\<lambda>r. Email r = email) (users (db s)) = []"
    using assms(3) by (auto simp: filter_empty_conv)
  then have only: "filter (\<lambda>r. Email r = email) (users (db s1)) = [row]"
    using row(1) by (simp add: s1_def d1_def)
  have mem: "email \<in> Email ` set (users (db s1))"
    using row(1) by (auto simp: s1_def d1_def image_iff)
  have second: "\<forall>u2. Email u2 = email \<longrightarrow>
      status (fst (createUserHandler now2 (Some u2) s1)) \<in>
        {StatusBadRequest, StatusInternalServerError} \<and>
      users (db (snd (createUserHandler now2 (Some u2) s1))) = users (db s1)"
    using createUserHandler_dup [of _ s1 now2] mem by auto
  have same: "status (fst (createUserHandler now2 (Some body) s1)) = StatusInternalServerError"
    using createUserHandler_dup [of body s1 now2] mem b assms(1,2) by simp
  show ?thesis
    using first row(1) nm only same second unfolding body_def by blast
qed

theorem create_user_twice_witness:
  "\<exists>u s1.
     createUserHandler 2
       (Some \<lparr>User.ID = 0, Email = ''carol@example.com'', Name = ''Carol'', CreatedAt = 0, UpdatedAt = 0\<rparr>)
       dave_server = (\<lparr>status = StatusCreated, body = JUser u\<rparr>, s1) \<and>
     Email u = ''carol@example.com'' \<and> User.Name u = ''Carol'' \<and>
     filter (\<lambda>r. Email r = ''carol@example.com'') (users (db s1)) = [u] \<and>
     status (fst (createUserHandler 3
       (Some \<lparr>User.ID = 0, Email = ''carol@example.com'', Name = ''Carol'', CreatedAt = 0, UpdatedAt = 0\<rparr>)
       s1)) = StatusInternalServerError \<and>
     users (db (snd (createUserHandler 3
       (Some \<lparr>User.ID = 0, Email = ''carol@example.com'', Name = ''Carol'', CreatedAt = 0, UpdatedAt = 0\<rparr>)
       s1))) = users (db s1)"
proof -
  have h: "''carol@example.com'' \<noteq> []" "''Carol'' \<noteq> []"
    "''carol@example.com'' \<notin> Email ` set (users (db dave_server))"
    "conn (db dave_server) = []"
    "\<forall>r \<in> set (users (db dave_server)). User.ID r \<le> users_id_seq (db dave_server)"
    by (simp_all add: dave_server_db)
  from create_user_twice [OF h, of 2 3] show ?thesis
    by (elim exE conjE) (intro exI conjI, assumption+, simp)
qed

text \<open>
  C9 as stated fails: after a POST /api/users with the id 1 in its body, the first POST
  of a new valid email is answered 500, because the id the sequence gives it is taken,
  and the second POST of the same email is answered 201.
\<close>

theorem create_user_twice_counterexample:
  "map Email (users (db explicit_id_server)) = [''zed@example.com''] \<and>
   conn (db explicit_id_server) = [] \<and>
   status (fst (createUserHandler 2
     (Some \<lparr>User.ID = 0, Email = ''carol@example.com'', Name = ''Carol'', CreatedAt = 0, UpdatedAt = 0\<rparr>)
     explicit_id_server)) = StatusInternalServerError \<and>
   status (fst (createUserHandler 3
     (Some \<lparr>User.ID = 0, Email = ''carol@example.com'', Name = ''Carol'', CreatedAt = 0, UpdatedAt = 0\<rparr>)
     (snd (createUserHandler 2
       (Some \<lparr>User.ID = 0, Email = ''carol@example.com'', Name = ''Carol'', CreatedAt = 0, UpdatedAt = 0\<rparr>)
       explicit_id_server)))) = StatusCreated"
  by (simp add: explicit_id_server_eq createUserHandler_def db_create_user_def next_stmt_def
      http_Error_def Let_def)

section \<open>Feature flags\<close>

lemmas example_defs =
  fresh_server_def empty_datastore_def dashboard_flag_def one_flag_server_def
  stored_dashboard_flag_def cold_server_def
  createFeatureFlagHandler_def db_create_flag_def next_stmt_def first_row_def Let_def
  StatusOK_def StatusCreated_def StatusBadRequest_def StatusNotFound_def
  StatusInternalServerError_def http_Error_def

lemma one_flag_server_eq:
  "one_flag_server =
     \<lparr>db = empty_datastore\<lparr>feature_flags := [stored_dashboard_flag], feature_flags_id_seq := 1\<rparr>,
      flagCache = [''new_dashboard'' \<mapsto> stored_dashboard_flag]\<rparr>"
  by (simp add: example_defs)

lemma db_first_flag_effect:
  "db_first_flag key pk d = (res, d') \<Longrightarrow>
     feature_flags d' = feature_flags d \<and> users d' = users d \<and> conn d' = tl (conn d)"
  by (auto simp: db_first_flag_def next_stmt_def split: list.splits option.splits)

lemma db_first_flag_Inr:
  "db_first_flag key pk d = (Inr r, d') \<Longrightarrow>
     r \<in> set (feature_flags d) \<and> Key r = key \<and> (pk \<noteq> 0 \<longrightarrow> FeatureFlag.ID r = pk)"
  by (auto simp: db_first_flag_def next_stmt_def split: list.splits option.splits
      dest!: first_row_Some)

lemma db_create_flag_Inr:
  "db_create_flag now f d = (Inr row, d') \<Longrightarrow>
     Enabled row = Enabled f \<and> Key row = Key f \<and> FeatureFlag.Name row = FeatureFlag.Name f \<and>
     Description row = Description f \<and>
     feature_flags d' = feature_flags d @ [row] \<and> users d' = users d"
  by (auto simp: db_create_flag_def next_stmt_def Let_def split: list.splits option.splits if_splits)

lemma getFeatureFlagHandler_hit:
  "flagCache s key = Some cached \<Longrightarrow>
     getFeatureFlagHandler key s = (\<lparr>status = StatusOK, body = JFlag cached\<rparr>, s)"
  by (simp add: getFeatureFlagHandler_def)

lemma store_all_other:
  "k \<notin> Key ` set flags \<Longrightarrow> store_all flags c k = c k"
  unfolding store_all_def by (induction flags arbitrary: c) auto

lemma store_all_distinct:
  "distinct (map Key flags) \<Longrightarrow> f \<in> set flags \<Longrightarrow> store_all flags c (Key f) = Some f"
proof (induction flags arbitrary: c)
  case Nil
  then show ?case by simp
next
  case (Cons g flags)
  show ?case
  proof (cases "f = g")
    case True
    then have "Key f \<notin> Key ` set flags"
      using Cons.prems(1) by simp
    from store_all_other [OF this] True show ?thesis
      by (simp add: store_all_def)
  next
    case False
    then have "f \<in> set flags" "distinct (map Key flags)"
      using Cons.prems by simp_all
    from Cons.IH [OF this(2,1)] show ?thesis
      by (simp add: store_all_def)
  qed
qed

lemma column_value_UpdatedAt [simp]:
  "column_value c (f\<lparr>FeatureFlag.UpdatedAt := t\<rparr>) =
     (if c = ColUpdatedAt then VTime t else column_value c f)"
  by (cases c) simp_all

lemma set_column_frame:
  "set_column c x f = Some f' \<Longrightarrow>
     column_value c f' = x \<and> (\<forall>c'. c' \<noteq> c \<longrightarrow> column_value c' f' = column_value c' f)"
  apply (cases c; cases x; simp)
        apply (auto, (case_tac c'; simp)+)
  done

lemma set_column_total:
  "set_column c x f = Some f' \<Longrightarrow> \<exists>g'. set_column c x g = Some g'"
  by (cases c; cases x; simp)

lemma typed_cell_fits:
  "typed_cell c v = Some x \<Longrightarrow> \<exists>f'. set_column c x f = Some f'"
  by (cases c; cases v; auto)

lemma typed_cell_not_UpdatedAt [simp]: "typed_cell ColUpdatedAt v = None"
  by simp

lemma db_assign_frame:
  "db_assign other kv r = Some r' \<Longrightarrow>
     \<exists>c. column_of (fst kv) = Some c \<and>
         (\<forall>c'. c' \<noteq> c \<longrightarrow> column_value c' r' = column_value c' r) \<and>
         (\<forall>x. typed_cell c (snd kv) = Some x \<longrightarrow> column_value c r' = x)"
  by (cases kv) (auto simp: cell_of_def split: option.splits dest: set_column_frame)

lemma db_assign_total:
  "db_assign other kv r = Some r' \<Longrightarrow> \<exists>g'. db_assign other kv g = Some g'"
  by (cases kv) (auto split: option.splits intro: set_column_total)

lemma db_assign_all_total:
  "db_assign_all other kvs r = Some r' \<Longrightarrow> \<exists>g'. db_assign_all other kvs g = Some g'"
proof (induction kvs arbitrary: r g)
  case Nil
  then show ?case by simp
next
  case (Cons kv kvs)
  then obtain r1 where r1: "db_assign other kv r = Some r1" "db_assign_all other kvs r1 = Some r'"
    by (auto split: option.splits)
  obtain g1 where "db_assign other kv g = Some g1"
    using db_assign_total [OF r1(1)] by blast
  then show ?case
    using Cons.IH [OF r1(2), of g1] by simp
qed

lemma db_assign_all_frame:
  "db_assign_all other kvs r = Some r' \<Longrightarrow>
     \<forall>c. Some c \<notin> column_of ` fst ` set kvs \<longrightarrow> column_value c r' = column_value c r"
proof (induction kvs arbitrary: r)
  case Nil
  then show ?case by simp
next
  case (Cons kv kvs)
  then obtain r1 where r1: "db_assign other kv r = Some r1" "db_assign_all other kvs r1 = Some r'"
    by (auto split: option.splits)
  from db_assign_frame [OF r1(1)] Cons.IH [OF r1(2)] show ?case
    by (auto simp: image_iff)
qed

lemma db_assign_all_typed:
  "db_assign_all other kvs r = Some r' \<Longrightarrow> distinct (map (column_of \<circ> fst) kvs) \<Longrightarrow>
     \<forall>(k, v) \<in> set kvs. \<forall>c x. column_of k = Some c \<and> typed_cell c v = Some x \<longrightarrow>
        column_value c r' = x"
proof (induction kvs arbitrary: r)
  case Nil
  then show ?case by simp
next
  case (Cons kv kvs)
  then obtain r1 where r1: "db_assign other kv r = Some r1" "db_assign_all other kvs r1 = Some r'"
    by (auto split: option.splits)
  obtain c where c: "column_of (fst kv) = Some c"
    "\<forall>x. typed_cell c (snd kv) = Some x \<longrightarrow> column_value c r1 = x"
    using db_assign_frame [OF r1(1)] by blast
  have "Some c \<notin> column_of ` fst ` set kvs"
    using Cons.prems(2) c(1) by (auto simp: image_iff)
  then have "column_value c r' = column_value c r1"
    using db_assign_all_frame [OF r1(2)] by simp
  with c have head: "\<forall>c' x. column_of (fst kv) = Some c' \<and> typed_cell c' (snd kv) = Some x \<longrightarrow>
      column_value c' r' = x"
    by simp
  have "\<forall>(k, v) \<in> set kvs. \<forall>c x. column_of k = Some c \<and> typed_cell c v = Some x \<longrightarrow>
      column_value c r' = x"
    using Cons.IH [OF r1(2)] Cons.prems(2) by simp
  with head show ?case
    by (cases kv) auto
qed

lemma mem_assign_frame:
  "(\<forall>c. Some c \<noteq> column_of (fst kv) \<longrightarrow>
        column_value c (mem_assign other kv f) = column_value c f) \<and>
   (\<forall>c x. column_of (fst kv) = Some c \<and> typed_cell c (snd kv) = Some x \<longrightarrow>
        column_value c (mem_assign other kv f) = x)"
proof (cases kv)
  case (Pair k v)
  show ?thesis
  proof (cases "column_of k")
    case None
    with Pair show ?thesis by simp
  next
    case (Some c)
    show ?thesis
    proof (cases "cell_of other c v")
      case None
      then have "typed_cell c v = None"
        by (simp add: cell_of_def split: option.splits)
      with Pair Some None show ?thesis by simp
    next
      case cell: (Some x)
      show ?thesis
      proof (cases "set_column c x f")
        case None
        then have "typed_cell c v = None"
          using typed_cell_fits [of c v _ f] cell
          by (cases "typed_cell c v") (auto simp: cell_of_def)
        with Pair Some cell None show ?thesis by simp
      next
        case set: (Some f')
        have "\<forall>y. typed_cell c v = Some y \<longrightarrow> y = x"
          using cell by (simp add: cell_of_def split: option.splits)
        with set_column_frame [OF set] Pair Some cell set show ?thesis
          by auto
      qed
    qed
  qed
qed

lemma mem_assign_all_frame:
  "\<forall>c. Some c \<notin> column_of ` fst ` set kvs \<longrightarrow>
      column_value c (mem_assign_all other kvs f) = column_value c f"
proof (induction kvs arbitrary: f)
  case Nil
  then show ?case by simp
next
  case (Cons kv kvs)
  from mem_assign_frame [of kv other f] Cons.IH [of "mem_assign other kv f"] show ?case
    by (auto simp: image_iff)
qed

lemma mem_assign_all_typed:
  "distinct (map (column_of \<circ> fst) kvs) \<Longrightarrow>
     \<forall>(k, v) \<in> set kvs. \<forall>c x. column_of k = Some c \<and> typed_cell c v = Some x \<longrightarrow>
        column_value c (mem_assign_all other kvs f) = x"
proof (induction kvs arbitrary: f)
  case Nil
  then show ?case by simp
next
  case (Cons kv kvs)
  let ?f1 = "mem_assign other kv f"
  have head: "\<forall>c x. column_of (fst kv) = Some c \<and> typed_cell c (snd kv) = Some x \<longrightarrow>
      column_value c (mem_assign_all other kvs ?f1) = x"
  proof (intro allI impI)
    fix c x
    assume a: "column_of (fst kv) = Some c \<and> typed_cell c (snd kv) = Some x"
    then have "Some c \<notin> column_of ` fst ` set kvs"
      using Cons.prems by (auto simp: image_iff)
    then have "column_value c (mem_assign_all other kvs ?f1) = column_value c ?f1"
      using mem_assign_all_frame [of kvs other ?f1] by simp
    with a mem_assign_frame [of kv other f] show "column_value c (mem_assign_all other kvs ?f1) = x"
      by simp
  qed
  have "\<forall>(k, v) \<in> set kvs. \<forall>c x. column_of k = Some c \<and> typed_cell c v = Some x \<longrightarrow>
      column_value c (mem_assign_all other kvs ?f1) = x"
    using Cons.IH [of ?f1] Cons.prems by simp
  with head show ?case
    by (cases kv) auto
qed

lemma auto_unnamed:
  "Some ColUpdatedAt \<notin> column_of ` fst ` set updates \<Longrightarrow> auto_updated_at updates"
  by (auto simp: auto_updated_at_def list_all_iff image_iff)

lemma assigned_columns_distinct:
  "distinct (assigned_columns updates) \<Longrightarrow> distinct (map (column_of \<circ> fst) updates)"
  by (simp add: assigned_columns_def split: if_splits)

lemma db_row_after_total:
  "db_row_after co now updates r = Some r' \<Longrightarrow> \<exists>g'. db_row_after co now updates g = Some g'"
  by (auto simp: db_row_after_def split: option.splits dest: db_assign_all_total)

lemma db_row_after_patched:
  assumes "db_row_after co now updates r = Some r'" and "distinct (assigned_columns updates)"
  shows "patched now updates r r'"
proof -
  obtain r1 where r1: "db_assign_all (in_db co) updates r = Some r1"
    and r': "r' = (if auto_updated_at updates then r1\<lparr>FeatureFlag.UpdatedAt := now\<rparr> else r1)"
    using assms(1) by (auto simp: db_row_after_def split: option.splits)
  note d = assigned_columns_distinct [OF assms(2)]
  have typed: "\<And>c v. typed_cell c v \<noteq> None \<Longrightarrow> c \<noteq> ColUpdatedAt"
    by auto
  show ?thesis
    unfolding patched_def
  proof (intro conjI allI impI ballI)
    fix c
    assume "Some c \<notin> column_of ` fst ` set updates \<and> c \<noteq> ColUpdatedAt"
    then show "column_value c r' = column_value c r"
      using db_assign_all_frame [OF r1] by (simp add: r')
  next
    assume "Some ColUpdatedAt \<notin> column_of ` fst ` set updates"
    from auto_unnamed [OF this] show "FeatureFlag.UpdatedAt r' = now"
      by (simp add: r')
  next
    fix kv
    assume kv: "kv \<in> set updates"
    show "case kv of (k, v) \<Rightarrow> \<forall>c x. column_of k = Some c \<and> typed_cell c v = Some x \<longrightarrow>
        column_value c r' = x"
    proof (cases kv)
      case (Pair k v)
      have "\<forall>c x. column_of k = Some c \<and> typed_cell c v = Some x \<longrightarrow> column_value c r' = x"
      proof (intro allI impI)
        fix c x
        assume a: "column_of k = Some c \<and> typed_cell c v = Some x"
        then have "c \<noteq> ColUpdatedAt" using typed [of c v] by simp
        moreover have "column_value c r1 = x"
          using db_assign_all_typed [OF r1 d] kv Pair a by blast
        ultimately show "column_value c r' = x" by (simp add: r')
      qed
      with Pair show ?thesis by simp
    qed
  qed
qed

lemma mem_after_patched:
  assumes "distinct (assigned_columns updates)"
  shows "patched now updates f (mem_after co now updates f)"
proof -
  let ?f1 = "mem_assign_all (in_memory co) updates f"
  have m: "mem_after co now updates f =
      (if auto_updated_at updates then ?f1\<lparr>FeatureFlag.UpdatedAt := now\<rparr> else ?f1)"
    by (simp add: mem_after_def)
  note d = assigned_columns_distinct [OF assms]
  have typed: "\<And>c v. typed_cell c v \<noteq> None \<Longrightarrow> c \<noteq> ColUpdatedAt"
    by auto
  show ?thesis
    unfolding patched_def
  proof (intro conjI allI impI ballI)
    fix c
    assume "Some c \<notin> column_of ` fst ` set updates \<and> c \<noteq> ColUpdatedAt"
    then show "column_value c (mem_after co now updates f) = column_value c f"
      using mem_assign_all_frame [of updates "in_memory co" f] by (simp add: m)
  next
    assume "Some ColUpdatedAt \<notin> column_of ` fst ` set updates"
    from auto_unnamed [OF this] show "FeatureFlag.UpdatedAt (mem_after co now updates f) = now"
      by (simp add: m)
  next
    fix kv
    assume kv: "kv \<in> set updates"
    show "case kv of (k, v) \<Rightarrow> \<forall>c x. column_of k = Some c \<and> typed_cell c v = Some x \<longrightarrow>
        column_value c (mem_after co now updates f) = x"
    proof (cases kv)
      case (Pair k v)
      have "\<forall>c x. column_of k = Some c \<and> typed_cell c v = Some x \<longrightarrow>
          column_value c (mem_after co now updates f) = x"
      proof (intro allI impI)
        fix c x
        assume a: "column_of k = Some c \<and> typed_cell c v = Some x"
        then have "c \<noteq> ColUpdatedAt" using typed [of c v] by simp
        moreover have "column_value c ?f1 = x"
          using mem_assign_all_typed [OF d, of "in_memory co" f] kv Pair a by blast
        ultimately show "column_value c (mem_after co now updates f) = x" by (simp add: m)
      qed
      with Pair show ?thesis by simp
    qed
  qed
qed



lemma db_updates_flag_Inr:
  assumes "db_updates_flag co now flag updates d = (Inr flag', d')"
  shows "\<exists>row. db_row_after co now updates flag = Some row \<and>
           flag' = mem_after co now updates flag \<and>
           distinct (assigned_columns updates) \<and> FeatureFlag.ID flag \<noteq> 0 \<and>
           users d' = users d \<and> conn d' = tl (conn d) \<and>
           feature_flags d' =
             map (\<lambda>r. if FeatureFlag.ID r = FeatureFlag.ID flag
                      then (case db_row_after co now updates r of Some r' \<Rightarrow> r' | None \<Rightarrow> r)
                      else r) (feature_flags d)"
  using assms
  by (auto simp: db_updates_flag_def next_stmt_def split: list.splits option.splits if_splits)

lemma updateFeatureFlagHandler_ok:
  assumes "updateFeatureFlagHandler co now key (Some updates) s = (r, s')" and "status r = StatusOK"
  shows "\<exists>flag d1 flag' d2 res d3.
           db_first_flag key 0 (db s) = (Inr flag, d1) \<and>
           db_updates_flag co now flag updates d1 = (Inr flag', d2) \<and>
           db_first_flag key (FeatureFlag.ID flag') d2 = (res, d3) \<and>
           r = \<lparr>status = StatusOK, body = JFlag (case res of Inr g \<Rightarrow> g | Inl e \<Rightarrow> flag')\<rparr> \<and>
           s' = s\<lparr>db := d3,
                  flagCache := (flagCache s)(key \<mapsto> (case res of Inr g \<Rightarrow> g | Inl e \<Rightarrow> flag'))\<rparr>"
  using assms
  by (auto simp: updateFeatureFlagHandler_def http_Error_def Let_def StatusOK_def
      StatusNotFound_def StatusInternalServerError_def
      split: prod.splits sum.splits if_splits)

lemma distinct_map_eq:
  "distinct (map f xs) \<Longrightarrow> x \<in> set xs \<Longrightarrow> y \<in> set xs \<Longrightarrow> f x = f y \<Longrightarrow> x = y"
  by (meson distinct_map inj_onD)

text \<open>
  The outcome of a PATCH that is answered 200: the flag found under the key, the row the
  statement made of it, the flag the handler then holds, and the reload.
\<close>

lemma patch_result:
  assumes "updateFeatureFlagHandler co now key (Some updates) s = (r, s')" and "status r = StatusOK"
  shows "\<exists>flag row res d2 d3.
           flag \<in> set (feature_flags (db s)) \<and> Key flag = key \<and> FeatureFlag.ID flag \<noteq> 0 \<and>
           db_row_after co now updates flag = Some row \<and>
           distinct (assigned_columns updates) \<and>
           feature_flags d2 =
             map (\<lambda>r. if FeatureFlag.ID r = FeatureFlag.ID flag
                      then (case db_row_after co now updates r of Some r' \<Rightarrow> r' | None \<Rightarrow> r)
                      else r) (feature_flags (db s)) \<and>
           conn d2 = tl (tl (conn (db s))) \<and>
           db_first_flag key (FeatureFlag.ID (mem_after co now updates flag)) d2 = (res, d3) \<and>
           r = \<lparr>status = StatusOK,
                 body = JFlag (case res of Inr g \<Rightarrow> g | Inl e \<Rightarrow> mem_after co now updates flag)\<rparr> \<and>
           flagCache s' =
             (flagCache s)(key \<mapsto> (case res of Inr g \<Rightarrow> g | Inl e \<Rightarrow> mem_after co now updates flag)) \<and>
           users (db s') = users (db s) \<and>
           feature_flags (db s') = feature_flags d2"
proof -
  obtain flag d1 flag' d2 res d3 where
    first: "db_first_flag key 0 (db s) = (Inr flag, d1)" and
    upd: "db_updates_flag co now flag updates d1 = (Inr flag', d2)" and
    reload: "db_first_flag key (FeatureFlag.ID flag') d2 = (res, d3)" and
    r: "r = \<lparr>status = StatusOK, body = JFlag (case res of Inr g \<Rightarrow> g | Inl e \<Rightarrow> flag')\<rparr>" and
    s': "s' = s\<lparr>db := d3,
                flagCache := (flagCache s)(key \<mapsto> (case res of Inr g \<Rightarrow> g | Inl e \<Rightarrow> flag'))\<rparr>"
    using updateFeatureFlagHandler_ok [OF assms] by blast
  have d1: "feature_flags d1 = feature_flags (db s)" "users d1 = users (db s)"
    "conn d1 = tl (conn (db s))"
    using db_first_flag_effect [OF first] by simp_all
  have flag: "flag \<in> set (feature_flags (db s))" "Key flag = key"
    using db_first_flag_Inr [OF first] by simp_all
  obtain row where row: "db_row_after co now updates flag = Some row"
    and flag': "flag' = mem_after co now updates flag"
    and dist: "distinct (assigned_columns updates)"
    and nz: "FeatureFlag.ID flag \<noteq> 0"
    and d2: "users d2 = users d1" "conn d2 = tl (conn d1)"
      "feature_flags d2 =
         map (\<lambda>r. if FeatureFlag.ID r = FeatureFlag.ID flag
                  then (case db_row_after co now updates r of Some r' \<Rightarrow> r' | None \<Rightarrow> r)
                  else r) (feature_flags d1)"
    using db_updates_flag_Inr [OF upd] by auto
  have d3: "feature_flags d3 = feature_flags d2" "users d3 = users d2"
    using db_first_flag_effect [OF reload] by simp_all
  show ?thesis
    apply (rule exI [of _ flag], rule exI [of _ row], rule exI [of _ res], rule exI [of _ d2],
        rule exI [of _ d3])
    using flag nz row dist reload r s' d1 d2 d3 unfolding flag'
    apply simp
    done
qed

text \<open>With unique keys, a reloaded flag is the updated row of the flag that was found.\<close>

lemma reloaded_row:
  assumes keys: "distinct (map Key rows)"
    and flag: "flag \<in> set rows" "db_row_after co now updates flag = Some row"
    and g: "g \<in> set (map (\<lambda>r. if FeatureFlag.ID r = FeatureFlag.ID flag
                      then (case db_row_after co now updates r of Some r' \<Rightarrow> r' | None \<Rightarrow> r)
                      else r) rows)" "Key g = Key flag"
  shows "\<exists>r0 \<in> set rows. FeatureFlag.ID r0 = FeatureFlag.ID flag \<and>
           db_row_after co now updates r0 = Some g"
proof -
  obtain r0 where r0: "r0 \<in> set rows"
    "g = (if FeatureFlag.ID r0 = FeatureFlag.ID flag
          then (case db_row_after co now updates r0 of Some r' \<Rightarrow> r' | None \<Rightarrow> r0) else r0)"
    using g(1) by auto
  have same: "FeatureFlag.ID r0 = FeatureFlag.ID flag"
  proof (rule ccontr)
    assume ne: "FeatureFlag.ID r0 \<noteq> FeatureFlag.ID flag"
    then have "g = r0" using r0(2) by simp
    then have "r0 = flag"
      using distinct_map_eq [OF keys r0(1) flag(1)] g(2) by simp
    with ne show False by simp
  qed
  obtain g' where "db_row_after co now updates r0 = Some g'"
    using db_row_after_total [OF flag(2)] by blast
  with r0 same show ?thesis by auto
qed

lemma patched_frame:
  "patched now updates old new \<Longrightarrow> Some c \<notin> column_of ` fst ` set updates \<Longrightarrow>
     c \<noteq> ColUpdatedAt \<Longrightarrow> column_value c new = column_value c old"
  by (simp add: patched_def)

lemma enabled_map:
  "assigned_columns [(''enabled'', JBool True)] = [Some ColEnabled, Some ColUpdatedAt]"
  "db_row_after co now [(''enabled'', JBool True)] f =
     Some (f\<lparr>Enabled := True, FeatureFlag.UpdatedAt := now\<rparr>)"
  "mem_after co now [(''enabled'', JBool True)] f = f\<lparr>Enabled := True, FeatureFlag.UpdatedAt := now\<rparr>"
  by (simp_all add: assigned_columns_def auto_updated_at_def column_of_def db_row_after_def
      mem_after_def cell_of_def)

lemma patch_frame_general:
  assumes ids: "distinct (map FeatureFlag.ID (feature_flags (db s)))"
    and keys: "distinct (map Key (feature_flags (db s)))"
    and run: "updateFeatureFlagHandler co now key (Some updates) s = (r, s')"
    and ok: "status r = StatusOK"
  shows "\<exists>old new stored. old \<in> set (feature_flags (db s)) \<and> Key old = key \<and>
           FeatureFlag.ID old \<noteq> 0 \<and>
           db_row_after co now updates old = Some stored \<and>
           (new = stored \<or> new = mem_after co now updates old) \<and>
           body r = JFlag new \<and>
           patched now updates old new \<and> patched now updates old stored \<and>
           feature_flags (db s') = map (\<lambda>row. if row = old then stored else row) (feature_flags (db s)) \<and>
           users (db s') = users (db s) \<and>
           getFeatureFlagHandler key s' = (\<lparr>status = StatusOK, body = JFlag new\<rparr>, s')"
proof -
  let ?U = "\<lambda>r flag. if FeatureFlag.ID r = FeatureFlag.ID flag
              then (case db_row_after co now updates r of Some r' \<Rightarrow> r' | None \<Rightarrow> r) else r"
  obtain flag row res d2 d3 where p:
    "flag \<in> set (feature_flags (db s))" "Key flag = key" "FeatureFlag.ID flag \<noteq> 0"
    "db_row_after co now updates flag = Some row"
    "distinct (assigned_columns updates)"
    "feature_flags d2 = map (\<lambda>r. ?U r flag) (feature_flags (db s))"
    "conn d2 = tl (tl (conn (db s)))"
    "db_first_flag key (FeatureFlag.ID (mem_after co now updates flag)) d2 = (res, d3)"
    "r = \<lparr>status = StatusOK,
          body = JFlag (case res of Inr g \<Rightarrow> g | Inl e \<Rightarrow> mem_after co now updates flag)\<rparr>"
    "flagCache s' =
       (flagCache s)(key \<mapsto> (case res of Inr g \<Rightarrow> g | Inl e \<Rightarrow> mem_after co now updates flag))"
    "users (db s') = users (db s)"
    "feature_flags (db s') = feature_flags d2"
    using patch_result [OF run ok] by blast
  let ?mem = "mem_after co now updates flag"
  let ?new = "case res of Inr g \<Rightarrow> g | Inl e \<Rightarrow> ?mem"
  have which: "?new = row \<or> ?new = ?mem"
  proof (cases res)
    case (Inl e)
    then show ?thesis by simp
  next
    case (Inr g)
    then have g: "g \<in> set (feature_flags d2)" "Key g = Key flag"
      using db_first_flag_Inr [OF p(8) [unfolded Inr]] p(2) by simp_all
    obtain r0 where r0: "r0 \<in> set (feature_flags (db s))" "FeatureFlag.ID r0 = FeatureFlag.ID flag"
      "db_row_after co now updates r0 = Some g"
      using reloaded_row [OF keys p(1,4) g(1) [unfolded p(6)] g(2)] by blast
    have "r0 = flag"
      using distinct_map_eq [OF ids r0(1) p(1) r0(2)] .
    with r0(3) p(4) Inr show ?thesis by simp
  qed
  have pat: "patched now updates flag row" "patched now updates flag ?mem"
    using db_row_after_patched [OF p(4,5)] mem_after_patched [OF p(5)] by simp_all
  then have pnew: "patched now updates flag ?new"
    using which by auto
  have rows: "feature_flags (db s') =
      map (\<lambda>r. if r = flag then row else r) (feature_flags (db s))"
    unfolding p(12) p(6)
    by (rule map_cong [OF refl]) (use p(1,4) ids in \<open>auto dest: distinct_map_eq\<close>)
  have hit: "flagCache s' key = Some ?new"
    by (simp add: p(10))
  show ?thesis
    apply (rule exI [of _ flag], rule exI [of _ ?new], rule exI [of _ row])
    using p(1,2,3,4,11) which pnew pat(1) rows getFeatureFlagHandler_hit [OF hit]
    apply (simp add: p(9))
    done
qed

lemma patch_enabled_succeeds:
  assumes "flag \<in> set (feature_flags (db s))" and "FeatureFlag.ID flag \<noteq> 0"
    and keys: "distinct (map Key (feature_flags (db s)))" and "conn (db s) = []"
  shows "status (fst (updateFeatureFlagHandler co now (Key flag) (Some [(''enabled'', JBool True)]) s)) =
           StatusOK"
proof -
  have "\<exists>x. first_row FeatureFlag.ID (\<lambda>r. Key r = Key flag \<and> ((0::nat) \<noteq> 0 \<longrightarrow> FeatureFlag.ID r = 0))
          (feature_flags (db s)) = Some x"
    by (rule first_row_exists [OF assms(1)]) simp
  then obtain x where x: "first_row FeatureFlag.ID
      (\<lambda>r. Key r = Key flag \<and> ((0::nat) \<noteq> 0 \<longrightarrow> FeatureFlag.ID r = 0)) (feature_flags (db s)) = Some x"
    by blast
  have "x = flag"
    using first_row_Some [OF x] distinct_map_eq [OF keys _ assms(1)] by auto
  then have first: "db_first_flag (Key flag) 0 (db s) = (Inr flag, db s)"
    using x assms(4) by (simp add: db_first_flag_def next_stmt_Nil)
  have uniq: "\<not> (\<exists>r \<in> set (feature_flags (db s)).
                  FeatureFlag.ID r \<noteq> FeatureFlag.ID flag \<and> Key r = Key flag)"
    using distinct_map_eq [OF keys _ assms(1)] by auto
  have "\<exists>flag' d2. db_updates_flag co now flag [(''enabled'', JBool True)] (db s) = (Inr flag', d2)"
    using assms(2,4) uniq
    by (simp add: db_updates_flag_def next_stmt_Nil enabled_map)
  then obtain flag' d2 where
    "db_updates_flag co now flag [(''enabled'', JBool True)] (db s) = (Inr flag', d2)"
    by blast
  with first show ?thesis
    by (simp add: updateFeatureFlagHandler_def Let_def split: prod.splits)
qed

lemmas patch_defs =
  updateFeatureFlagHandler_def db_first_flag_def db_updates_flag_def assigned_columns_def
  auto_updated_at_def db_row_after_def mem_after_def cell_of_def column_of_def
  lenient_def lenient_coercion_def strict_coercion_def

lemma one_flag_rows:
  "feature_flags (db one_flag_server) = [stored_dashboard_flag]" "conn (db one_flag_server) = []"
  "Key stored_dashboard_flag = ''new_dashboard''" "FeatureFlag.ID stored_dashboard_flag = 1"
  "FeatureFlag.Name stored_dashboard_flag = ''New Dashboard''"
  "Description stored_dashboard_flag = ''Shows the new dashboard''"
  "FeatureFlag.CreatedAt stored_dashboard_flag = 1" "\<not> Enabled stored_dashboard_flag"
  by (simp_all add: one_flag_server_eq empty_datastore_def stored_dashboard_flag_def dashboard_flag_def)

text \<open>
  The ids and the keys of the flag table are distinct at start-up and stay so: creating
  and updating a flag preserve it, by the primary key and the unique index, and the
  other handlers leave the flag table alone.
\<close>

lemma db_updates_flag_rows:
  assumes ids: "distinct (map FeatureFlag.ID (feature_flags d))"
    and keys: "distinct (map Key (feature_flags d))"
    and flag: "flag \<in> set (feature_flags d)"
    and upd: "db_updates_flag co now flag updates d = (res, d')"
  shows "distinct (map FeatureFlag.ID (feature_flags d')) \<and> distinct (map Key (feature_flags d'))"
proof (cases res)
  case (Inl e)
  then have "feature_flags d' = feature_flags d"
    using upd
    by (auto simp: db_updates_flag_def next_stmt_def split: list.splits option.splits if_splits)
  with ids keys show ?thesis by simp
next
  case (Inr f')
  let ?rows = "feature_flags d"
  from upd Inr obtain row where row: "db_row_after co now updates flag = Some row"
    and nopk: "\<not> (\<exists>r \<in> set ?rows. FeatureFlag.ID r \<noteq> FeatureFlag.ID flag \<and> FeatureFlag.ID r = FeatureFlag.ID row)"
    and nouq: "\<not> (\<exists>r \<in> set ?rows. FeatureFlag.ID r \<noteq> FeatureFlag.ID flag \<and> Key r = Key row)"
    and rows': "feature_flags d' =
             map (\<lambda>r. if FeatureFlag.ID r = FeatureFlag.ID flag
                      then (case db_row_after co now updates r of Some r' \<Rightarrow> r' | None \<Rightarrow> r)
                      else r) ?rows"
    by (auto simp: db_updates_flag_def next_stmt_def split: list.splits option.splits if_splits)
  have same: "(\<lambda>r. if FeatureFlag.ID r = FeatureFlag.ID flag
                      then (case db_row_after co now updates r of Some r' \<Rightarrow> r' | None \<Rightarrow> r)
                      else r) r = (if r = flag then row else r)" if "r \<in> set ?rows" for r
    using distinct_map_eq [OF ids that flag] row by auto
  have rows'': "feature_flags d' = map (\<lambda>r. if r = flag then row else r) ?rows"
    unfolding rows' using same by (intro map_cong) auto
  have other: "r \<in> set ?rows \<Longrightarrow> r \<noteq> flag \<Longrightarrow>
        FeatureFlag.ID r \<noteq> FeatureFlag.ID row \<and> Key r \<noteq> Key row" for r
    using nopk nouq distinct_map_eq [OF ids _ flag, of r] by blast
  have gen: "distinct (map g (map (\<lambda>r. if r = flag then row else r) rows))"
    if "distinct (map g rows)" "\<forall>r \<in> set rows. r \<noteq> flag \<longrightarrow> g r \<noteq> g row" for g :: "FeatureFlag \<Rightarrow> 'a" and rows
    using that
  proof (induction rows)
    case Nil
    then show ?case by simp
  next
    case (Cons a rows)
    then show ?case
      by (auto simp: image_iff)
  qed
  show ?thesis
    unfolding rows'' using gen [OF ids] gen [OF keys] other by blast
qed

lemma createFeatureFlagHandler_rows:
  assumes "distinct (map FeatureFlag.ID (feature_flags (db s)))"
    and "distinct (map Key (feature_flags (db s)))"
  shows "distinct (map FeatureFlag.ID (feature_flags (db (snd (createFeatureFlagHandler now decoded s))))) \<and>
         distinct (map Key (feature_flags (db (snd (createFeatureFlagHandler now decoded s)))))"
  using assms
  by (auto simp: createFeatureFlagHandler_def db_create_flag_def next_stmt_def Let_def
      split: option.splits list.splits prod.splits sum.splits if_splits)

lemma updateFeatureFlagHandler_rows:
  assumes ids: "distinct (map FeatureFlag.ID (feature_flags (db s)))"
    and keys: "distinct (map Key (feature_flags (db s)))"
  shows "distinct (map FeatureFlag.ID (feature_flags (db (snd (updateFeatureFlagHandler co now key decoded s))))) \<and>
         distinct (map Key (feature_flags (db (snd (updateFeatureFlagHandler co now key decoded s)))))"
proof (cases decoded)
  case None
  then show ?thesis using assms by (simp add: updateFeatureFlagHandler_def)
next
  case (Some updates)
  obtain res1 d1 where first: "db_first_flag key 0 (db s) = (res1, d1)"
    by (cases "db_first_flag key 0 (db s)") auto
  note e1 = db_first_flag_effect [OF first]
  show ?thesis
  proof (cases res1)
    case (Inl e)
    then show ?thesis
      using Some first e1 assms by (simp add: updateFeatureFlagHandler_def)
  next
    case (Inr flag)
    obtain res2 d2 where upd: "db_updates_flag co now flag updates d1 = (res2, d2)"
      by (cases "db_updates_flag co now flag updates d1") auto
    have fl: "flag \<in> set (feature_flags d1)"
      using db_first_flag_Inr [OF first [unfolded Inr]] e1 by simp
    have d2: "distinct (map FeatureFlag.ID (feature_flags d2)) \<and> distinct (map Key (feature_flags d2))"
      using db_updates_flag_rows [OF _ _ fl upd] e1 assms by simp
    show ?thesis
    proof (cases res2)
      case (Inl e)
      then show ?thesis
        using Some first Inr upd d2 by (simp add: updateFeatureFlagHandler_def)
    next
      case f': (Inr flag')
      obtain res3 d3 where reload: "db_first_flag key (FeatureFlag.ID flag') d2 = (res3, d3)"
        by (cases "db_first_flag key (FeatureFlag.ID flag') d2") auto
      note e3 = db_first_flag_effect [OF reload]
      show ?thesis
        using Some first Inr upd f' reload e3 d2 by (simp add: updateFeatureFlagHandler_def Let_def)
    qed
  qed
qed

lemma seed_loop_flags:
  "seed_loop now us acc d = (acc', d') \<Longrightarrow> feature_flags d' = feature_flags d"
proof (induction now us acc d rule: seed_loop.induct)
  case (1 now acc d)
  then show ?case by simp
next
  case (2 now user rest createdCount skippedCount errs d)
  obtain res d1 where foc: "db_first_or_create_user now (Email user) user d = (res, d1)"
    by (cases "db_first_or_create_user now (Email user) user d") auto
  have d1: "feature_flags d1 = feature_flags d"
    using foc
    by (auto simp: db_first_or_create_user_def db_create_user_def next_stmt_def Let_def
        split: list.splits option.splits if_splits prod.splits sum.splits)
  show ?case
  proof (cases res)
    case (Inl e)
    with 2 foc d1 show ?thesis by simp
  next
    case (Inr p)
    obtain r n where p: "p = (r, n)" by (cases p)
    with 2 foc d1 Inr show ?thesis by (cases "n > 0") simp_all
  qed
qed

lemma other_handlers_rows:
  "feature_flags (db (snd (getFeatureFlagHandler key s))) = feature_flags (db s)"
  "feature_flags (db (snd (getFeatureFlagsHandler s))) = feature_flags (db s)"
  "feature_flags (db (snd (createUserHandler now decoded s))) = feature_flags (db s)"
  "feature_flags (db (snd (seedDatabaseHandler now s))) = feature_flags (db s)"
proof -
  show "feature_flags (db (snd (getFeatureFlagHandler key s))) = feature_flags (db s)"
    by (auto simp: getFeatureFlagHandler_def db_first_flag_def next_stmt_def
        split: option.splits list.splits prod.splits sum.splits if_splits)
  show "feature_flags (db (snd (getFeatureFlagsHandler s))) = feature_flags (db s)"
    by (auto simp: getFeatureFlagsHandler_def db_find_flags_def next_stmt_def
        split: option.splits list.splits prod.splits sum.splits if_splits)
  show "feature_flags (db (snd (createUserHandler now decoded s))) = feature_flags (db s)"
    by (auto simp: createUserHandler_def db_create_user_def next_stmt_def Let_def
        split: option.splits list.splits prod.splits sum.splits if_splits)
  obtain acc d where L: "seed_loop now sampleUsers (0, 0, []) (db s) = (acc, d)"
    by (cases "seed_loop now sampleUsers (0, 0, []) (db s)") auto
  obtain c k es where acc: "acc = (c, k, es)" by (cases acc)
  show "feature_flags (db (snd (seedDatabaseHandler now s))) = feature_flags (db s)"
    using seed_loop_flags [OF L] L acc by (simp add: seedDatabaseHandler_def)
qed

lemma fresh_server_rows:
  "distinct (map FeatureFlag.ID (feature_flags (db fresh_server)))"
  "distinct (map Key (feature_flags (db fresh_server)))"
  by (simp_all add: fresh_server_def empty_datastore_def)

text \<open>
  C1, as amended. For a POST /api/feature-flags with non-empty key and name that is
  answered 201, the flag that is returned, stored in the datastore and then returned by
  GET /api/feature-flags/{key} has the enabled value of the request body: false when the
  body gives none, true when the body says true.
\<close>

theorem create_flag_keeps_enabled:
  assumes "Key flag \<noteq> []" and "FeatureFlag.Name flag \<noteq> []"
    and "createFeatureFlagHandler now (Some flag) s = (r, s')"
    and "status r = StatusCreated"
  shows "\<exists>f. body r = JFlag f \<and> Enabled f = Enabled flag \<and> Key f = Key flag \<and>
             f \<in> set (feature_flags (db s')) \<and>
             getFeatureFlagHandler (Key flag) s' = (\<lparr>status = StatusOK, body = JFlag f\<rparr>, s')"
proof -
  obtain f d where ins: "db_create_flag now flag (db s) = (Inr f, d)"
    and r: "r = \<lparr>status = StatusCreated, body = JFlag f\<rparr>"
    and s': "s' = s\<lparr>db := d, flagCache := (flagCache s)(Key f \<mapsto> f)\<rparr>"
    using assms
    by (auto simp: createFeatureFlagHandler_def http_Error_def StatusCreated_def
        StatusBadRequest_def StatusInternalServerError_def split: prod.splits sum.splits)
  note row = db_create_flag_Inr [OF ins]
  have "flagCache s' (Key flag) = Some f"
    using row by (simp add: s')
  from getFeatureFlagHandler_hit [OF this] row show ?thesis
    by (simp add: r s')
qed

theorem create_flag_keeps_enabled_witness:
  "\<exists>f. body (fst (createFeatureFlagHandler 1 (Some dashboard_flag) fresh_server)) = JFlag f \<and>
       Enabled f = False \<and> Key f = ''new_dashboard'' \<and>
       f \<in> set (feature_flags (db one_flag_server)) \<and>
       getFeatureFlagHandler ''new_dashboard'' one_flag_server =
         (\<lparr>status = StatusOK, body = JFlag f\<rparr>, one_flag_server)"
proof -
  let ?H = "createFeatureFlagHandler 1 (Some dashboard_flag) fresh_server"
  have k: "Key dashboard_flag \<noteq> []" "FeatureFlag.Name dashboard_flag \<noteq> []"
    by (simp_all add: dashboard_flag_def)
  have run: "?H = (fst ?H, one_flag_server)"
    by (simp add: one_flag_server_def)
  have ok: "status (fst ?H) = StatusCreated"
    by (simp add: example_defs)
  from create_flag_keeps_enabled [OF k run ok] show ?thesis
    by (simp add: dashboard_flag_def)
qed

text \<open>
  C1 as stated fails: a body with enabled true creates a flag that is enabled, and the
  GET that follows returns it enabled.
\<close>

theorem create_flag_enabled_counterexample:
  "fst (createFeatureFlagHandler 1 (Some (dashboard_flag\<lparr>Enabled := True\<rparr>)) fresh_server) =
     \<lparr>status = StatusCreated, body = JFlag (stored_dashboard_flag\<lparr>Enabled := True\<rparr>)\<rparr> \<and>
   fst (getFeatureFlagHandler ''new_dashboard''
          (snd (createFeatureFlagHandler 1 (Some (dashboard_flag\<lparr>Enabled := True\<rparr>)) fresh_server))) =
     \<lparr>status = StatusOK, body = JFlag (stored_dashboard_flag\<lparr>Enabled := True\<rparr>)\<rparr> \<and>
   Enabled (stored_dashboard_flag\<lparr>Enabled := True\<rparr>)"
  by (simp add: example_defs getFeatureFlagHandler_def)

text \<open>
  C2. The create handler rejects an empty name with 400 and leaves the state alone, but
  PATCH /api/feature-flags/new_dashboard with the body {"name": ""} is answered 200 and
  stores a flag whose name is empty: the update handler validates nothing. (A string
  for name is assigned as it is, so this holds whatever \<open>co\<close> is.)
\<close>

theorem patch_skips_validation:
  "createFeatureFlagHandler 1 (Some (dashboard_flag\<lparr>FeatureFlag.Name := []\<rparr>)) fresh_server =
     (http_Error ''Key and name are required'' StatusBadRequest, fresh_server) \<and>
   status (fst (updateFeatureFlagHandler co 9 ''new_dashboard'' (Some [(''name'', JString [])])
                  one_flag_server)) = StatusOK \<and>
   feature_flags (db (snd (updateFeatureFlagHandler co 9 ''new_dashboard'' (Some [(''name'', JString [])])
                             one_flag_server))) =
     [stored_dashboard_flag\<lparr>FeatureFlag.Name := [], FeatureFlag.UpdatedAt := 9\<rparr>]"
  by (simp add: one_flag_server_eq updateFeatureFlagHandler_def db_first_flag_def db_updates_flag_def
      column_of_def assigned_columns_def auto_updated_at_def db_row_after_def mem_after_def
      cell_of_def example_defs)

text \<open>
  C5. GET /api/feature-flags/{key}: on a cache hit the cached record is returned and the
  server state, the datastore and its connection included, is untouched, whatever the
  datastore holds. On a miss one statement is issued; when it finds the flag, a row of
  the table with that key, the flag is returned and stored in the cache under the key;
  when it fails the answer is 404 or 500 and the cache is unchanged.
  GET /api/feature-flags always issues one statement, whatever the cache holds: when it
  succeeds the response is the table and every returned flag is stored in the cache
  under its key (keys being unique); when it fails the answer is 500.
\<close>

theorem flag_read_policy:
  "(flagCache s key = Some cached \<longrightarrow>
      getFeatureFlagHandler key s = (\<lparr>status = StatusOK, body = JFlag cached\<rparr>, s)) \<and>
   (flagCache s key = None \<and> db_first_flag key 0 (db s) = (Inr flag, d) \<longrightarrow>
      getFeatureFlagHandler key s =
        (\<lparr>status = StatusOK, body = JFlag flag\<rparr>,
         s\<lparr>db := d, flagCache := (flagCache s)(key \<mapsto> flag)\<rparr>) \<and>
      flag \<in> set (feature_flags (db s)) \<and> Key flag = key \<and> conn d = tl (conn (db s))) \<and>
   (flagCache s key = None \<and> db_first_flag key 0 (db s) = (Inl err, d) \<longrightarrow>
      status (fst (getFeatureFlagHandler key s)) \<in> {StatusNotFound, StatusInternalServerError} \<and>
      snd (getFeatureFlagHandler key s) = s\<lparr>db := d\<rparr>) \<and>
   (db_find_flags (db s) = (Inr flags, d) \<longrightarrow>
      flags = feature_flags (db s) \<and> conn d = tl (conn (db s)) \<and>
      getFeatureFlagsHandler s =
        (\<lparr>status = StatusOK, body = JFlags flags\<rparr>,
         s\<lparr>db := d, flagCache := store_all flags (flagCache s)\<rparr>) \<and>
      (distinct (map Key flags) \<longrightarrow>
         (\<forall>f \<in> set flags. flagCache (snd (getFeatureFlagsHandler s)) (Key f) = Some f))) \<and>
   (db_find_flags (db s) = (Inl err, d) \<longrightarrow>
      getFeatureFlagsHandler s =
        (http_Error (''Database error: '' @ err_text err) StatusInternalServerError, s\<lparr>db := d\<rparr>))"
proof (intro conjI impI)
  assume "flagCache s key = Some cached"
  then show "getFeatureFlagHandler key s = (\<lparr>status = StatusOK, body = JFlag cached\<rparr>, s)"
    by (rule getFeatureFlagHandler_hit)
next
  assume a: "flagCache s key = None \<and> db_first_flag key 0 (db s) = (Inr flag, d)"
  then show "getFeatureFlagHandler key s =
        (\<lparr>status = StatusOK, body = JFlag flag\<rparr>,
         s\<lparr>db := d, flagCache := (flagCache s)(key \<mapsto> flag)\<rparr>)"
    by (simp add: getFeatureFlagHandler_def)
  from a show "flag \<in> set (feature_flags (db s))" "Key flag = key"
    using db_first_flag_Inr [of key 0 "db s" flag d] by simp_all
  from a show "conn d = tl (conn (db s))"
    using db_first_flag_effect [of key 0 "db s" "Inr flag" d] by simp
next
  assume a: "flagCache s key = None \<and> db_first_flag key 0 (db s) = (Inl err, d)"
  then show "status (fst (getFeatureFlagHandler key s)) \<in> {StatusNotFound, StatusInternalServerError}"
    by (simp add: getFeatureFlagHandler_def http_Error_def)
  from a show "snd (getFeatureFlagHandler key s) = s\<lparr>db := d\<rparr>"
    by (simp add: getFeatureFlagHandler_def)
next
  assume a: "db_find_flags (db s) = (Inr flags, d)"
  then show fl: "flags = feature_flags (db s)" and "conn d = tl (conn (db s))"
    by (auto simp: db_find_flags_def next_stmt_def split: list.splits option.splits)
  from a show "getFeatureFlagsHandler s =
        (\<lparr>status = StatusOK, body = JFlags flags\<rparr>,
         s\<lparr>db := d, flagCache := store_all flags (flagCache s)\<rparr>)"
    by (simp add: getFeatureFlagsHandler_def)
  then show "\<forall>f \<in> set flags. flagCache (snd (getFeatureFlagsHandler s)) (Key f) = Some f"
    if "distinct (map Key flags)"
    using that by (simp add: store_all_distinct)
next
  assume "db_find_flags (db s) = (Inl err, d)"
  then show "getFeatureFlagsHandler s =
        (http_Error (''Database error: '' @ err_text err) StatusInternalServerError, s\<lparr>db := d\<rparr>)"
    by (simp add: getFeatureFlagsHandler_def)
qed

theorem flag_read_policy_witness:
  "getFeatureFlagHandler ''new_dashboard'' one_flag_server =
     (\<lparr>status = StatusOK, body = JFlag stored_dashboard_flag\<rparr>, one_flag_server) \<and>
   getFeatureFlagHandler ''new_dashboard'' cold_server =
     (\<lparr>status = StatusOK, body = JFlag stored_dashboard_flag\<rparr>, one_flag_server) \<and>
   status (fst (getFeatureFlagHandler ''absent'' cold_server)) = StatusNotFound \<and>
   getFeatureFlagsHandler cold_server =
     (\<lparr>status = StatusOK, body = JFlags [stored_dashboard_flag]\<rparr>, one_flag_server) \<and>
   flagCache (snd (getFeatureFlagsHandler cold_server)) ''new_dashboard'' = Some stored_dashboard_flag \<and>
   status (fst (getFeatureFlagsHandler
     (one_flag_server\<lparr>db := (db one_flag_server)\<lparr>conn := [Some ''connection refused'']\<rparr>\<rparr>))) =
     StatusInternalServerError"
proof -
  let ?d = "db one_flag_server"
  let ?down = "one_flag_server\<lparr>db := ?d\<lparr>conn := [Some ''connection refused'']\<rparr>\<rparr>"
  have hit: "flagCache one_flag_server ''new_dashboard'' = Some stored_dashboard_flag"
    by (simp add: one_flag_server_eq)
  have miss: "flagCache cold_server ''new_dashboard'' = None \<and>
      db_first_flag ''new_dashboard'' 0 (db cold_server) = (Inr stored_dashboard_flag, ?d)"
    by (simp add: cold_server_def one_flag_server_eq db_first_flag_def example_defs)
  have absent: "flagCache cold_server ''absent'' = None \<and>
      db_first_flag ''absent'' 0 (db cold_server) = (Inl ErrRecordNotFound, ?d)"
    by (simp add: cold_server_def one_flag_server_eq db_first_flag_def example_defs)
  have list: "db_find_flags (db cold_server) = (Inr [stored_dashboard_flag], ?d)"
    by (simp add: cold_server_def one_flag_server_eq db_find_flags_def example_defs)
  have down: "db_find_flags (db ?down) = (Inl (ErrOther ''connection refused''), ?d)"
    by (simp add: one_flag_server_eq db_find_flags_def example_defs)
  have restored: "cold_server\<lparr>db := ?d, flagCache := (flagCache cold_server)(''new_dashboard'' \<mapsto> stored_dashboard_flag)\<rparr> = one_flag_server"
    "cold_server\<lparr>db := ?d, flagCache := store_all [stored_dashboard_flag] (flagCache cold_server)\<rparr> = one_flag_server"
    by (simp_all add: cold_server_def one_flag_server_eq store_all_def stored_dashboard_flag_def dashboard_flag_def)
  have nf: "status (fst (getFeatureFlagHandler ''absent'' cold_server)) = StatusNotFound"
    using absent by (simp add: getFeatureFlagHandler_def http_Error_def)
  from
    flag_read_policy [where s = one_flag_server and key = "''new_dashboard''"
      and cached = stored_dashboard_flag]
    flag_read_policy [where s = cold_server and key = "''new_dashboard''"
      and flag = stored_dashboard_flag and d = "?d" and flags = "[stored_dashboard_flag]"]
    flag_read_policy [where s = "?down" and err = "ErrOther ''connection refused''" and d = "?d"]
    hit miss list down restored nf
  show ?thesis
    by (simp add: http_Error_def)
qed

text \<open>
  C6, as amended. The ids and the keys of the flag table are distinct (its primary key
  and its unique index: every handler keeps them so, see \<open>updateFeatureFlagHandler_rows\<close>
  and \<open>createFeatureFlagHandler_rows\<close>). A PATCH that is answered 200 returns the flag that had the
  key, patched by the map: every column that no key of the map names keeps its value,
  except updatedAt, which is then set to the time of the update, and every column whose
  key carries a value of its JSON type has that value. The row stored for the flag is
  patched in the same way, the other flags and the users are unchanged, and the GET
  that follows returns the record the PATCH returned. That holds whatever the layers
  under the handler make of the other values (\<open>co\<close>), also for a map that names id or
  updatedAt. In particular, when the datastore answers, PATCH {"enabled": true} on an
  existing flag whose id is not 0 (a PATCH on a flag with id 0 is refused, for want of
  a WHERE condition) is answered 200 with enabled true, name and description unchanged and
  updatedAt set to the time of the update, and so is the GET.
\<close>

theorem patch_frame:
  assumes ids: "distinct (map FeatureFlag.ID (feature_flags (db s)))"
    and keys: "distinct (map Key (feature_flags (db s)))"
  shows
   "(updateFeatureFlagHandler co now key (Some updates) s = (r, s') \<and> status r = StatusOK \<longrightarrow>
      (\<exists>old new stored. old \<in> set (feature_flags (db s)) \<and> Key old = key \<and> body r = JFlag new \<and>
         patched now updates old new \<and> patched now updates old stored \<and>
         feature_flags (db s') = map (\<lambda>row. if row = old then stored else row) (feature_flags (db s)) \<and>
         users (db s') = users (db s) \<and>
         getFeatureFlagHandler key s' = (\<lparr>status = StatusOK, body = JFlag new\<rparr>, s'))) \<and>
    (flag \<in> set (feature_flags (db s)) \<and> FeatureFlag.ID flag \<noteq> 0 \<and> conn (db s) = [] \<longrightarrow>
      (\<exists>s1. updateFeatureFlagHandler co now (Key flag) (Some [(''enabled'', JBool True)]) s =
              (\<lparr>status = StatusOK,
                body = JFlag (flag\<lparr>Enabled := True, FeatureFlag.UpdatedAt := now\<rparr>)\<rparr>, s1) \<and>
            getFeatureFlagHandler (Key flag) s1 =
              (\<lparr>status = StatusOK,
                body = JFlag (flag\<lparr>Enabled := True, FeatureFlag.UpdatedAt := now\<rparr>)\<rparr>, s1)))"
proof (intro conjI impI)
  assume "updateFeatureFlagHandler co now key (Some updates) s = (r, s') \<and> status r = StatusOK"
  then show "\<exists>old new stored. old \<in> set (feature_flags (db s)) \<and> Key old = key \<and> body r = JFlag new \<and>
         patched now updates old new \<and> patched now updates old stored \<and>
         feature_flags (db s') = map (\<lambda>row. if row = old then stored else row) (feature_flags (db s)) \<and>
         users (db s') = users (db s) \<and>
         getFeatureFlagHandler key s' = (\<lparr>status = StatusOK, body = JFlag new\<rparr>, s')"
    using patch_frame_general [OF ids keys, of co now key updates r s'] by blast
next
  assume a: "flag \<in> set (feature_flags (db s)) \<and> FeatureFlag.ID flag \<noteq> 0 \<and> conn (db s) = []"
  let ?u = "[(''enabled'', JBool True)]"
  obtain r1 s1 where run: "updateFeatureFlagHandler co now (Key flag) (Some ?u) s = (r1, s1)"
    by (cases "updateFeatureFlagHandler co now (Key flag) (Some ?u) s") auto
  have ok: "status r1 = StatusOK"
    using patch_enabled_succeeds [of flag s co now] a keys run by simp
  obtain old new stored where p: "old \<in> set (feature_flags (db s))" "Key old = Key flag"
    "db_row_after co now ?u old = Some stored"
    "new = stored \<or> new = mem_after co now ?u old"
    "body r1 = JFlag new"
    "getFeatureFlagHandler (Key flag) s1 = (\<lparr>status = StatusOK, body = JFlag new\<rparr>, s1)"
    using patch_frame_general [OF ids keys run ok] by blast
  have "old = flag"
    using distinct_map_eq [OF keys p(1) _ p(2)] a by simp
  then have new: "new = flag\<lparr>Enabled := True, FeatureFlag.UpdatedAt := now\<rparr>"
    using p(3,4) by (auto simp: enabled_map)
  have "r1 = \<lparr>status = StatusOK, body = JFlag new\<rparr>"
    using ok p(5) by (cases r1) simp
  then show "\<exists>s1. updateFeatureFlagHandler co now (Key flag) (Some ?u) s =
              (\<lparr>status = StatusOK,
                body = JFlag (flag\<lparr>Enabled := True, FeatureFlag.UpdatedAt := now\<rparr>)\<rparr>, s1) \<and>
            getFeatureFlagHandler (Key flag) s1 =
              (\<lparr>status = StatusOK,
                body = JFlag (flag\<lparr>Enabled := True, FeatureFlag.UpdatedAt := now\<rparr>)\<rparr>, s1)"
    using run p(6) new by auto
qed

theorem patch_frame_witness:
  "(\<exists>new. body (fst (updateFeatureFlagHandler lenient_coercion 9 ''new_dashboard''
                       (Some [(''updated_at'', JString ''77''), (''description'', JNull)])
                       one_flag_server)) = JFlag new \<and>
          FeatureFlag.Name new = ''New Dashboard'' \<and> Key new = ''new_dashboard'' \<and>
          \<not> Enabled new \<and> FeatureFlag.ID new = 1 \<and> FeatureFlag.CreatedAt new = 1) \<and>
   (\<exists>s1. updateFeatureFlagHandler strict_coercion 9 ''new_dashboard'' (Some [(''enabled'', JBool True)])
           one_flag_server =
           (\<lparr>status = StatusOK,
             body = JFlag (stored_dashboard_flag\<lparr>Enabled := True, FeatureFlag.UpdatedAt := 9\<rparr>)\<rparr>, s1) \<and>
         getFeatureFlagHandler ''new_dashboard'' s1 =
           (\<lparr>status = StatusOK,
             body = JFlag (stored_dashboard_flag\<lparr>Enabled := True, FeatureFlag.UpdatedAt := 9\<rparr>)\<rparr>, s1))"
proof -
  let ?u = "[(''updated_at'', JString ''77''), (''description'', JNull)]"
  let ?H = "updateFeatureFlagHandler lenient_coercion 9 ''new_dashboard'' (Some ?u) one_flag_server"
  have ids: "distinct (map FeatureFlag.ID (feature_flags (db one_flag_server)))"
    and keys: "distinct (map Key (feature_flags (db one_flag_server)))"
    by (simp_all add: one_flag_rows)
  have ok: "status (fst ?H) = StatusOK"
    by (simp add: one_flag_server_eq patch_defs example_defs is_digit_def)
  have named: "column_of ` fst ` set ?u = {Some ColUpdatedAt, Some ColDescription}"
    by (auto simp: column_of_def)
  note inst = patch_frame [OF ids keys, where co = lenient_coercion and now = 9
      and key = "''new_dashboard''" and updates = "?u" and r = "fst ?H" and s' = "snd ?H"]
  from inst [THEN conjunct1, THEN mp, OF conjI [OF prod.collapse [symmetric] ok]]
  obtain old new where p: "old \<in> set (feature_flags (db one_flag_server))"
    "body (fst ?H) = JFlag new" "patched 9 ?u old new"
    by blast
  have old: "old = stored_dashboard_flag"
    using p(1) by (simp add: one_flag_rows)
  have fr: "column_value ColName new = column_value ColName old"
    "column_value ColKey new = column_value ColKey old"
    "column_value ColEnabled new = column_value ColEnabled old"
    "column_value ColID new = column_value ColID old"
    "column_value ColCreatedAt new = column_value ColCreatedAt old"
    using patched_frame [OF p(3), of ColName] patched_frame [OF p(3), of ColKey]
      patched_frame [OF p(3), of ColEnabled] patched_frame [OF p(3), of ColID]
      patched_frame [OF p(3), of ColCreatedAt]
    by (simp_all add: column_of_def)
  then have first: "\<exists>new. body (fst ?H) = JFlag new \<and>
          FeatureFlag.Name new = ''New Dashboard'' \<and> Key new = ''new_dashboard'' \<and>
          \<not> Enabled new \<and> FeatureFlag.ID new = 1 \<and> FeatureFlag.CreatedAt new = 1"
    using p(2) old one_flag_rows by auto
  from patch_frame [OF ids keys, where co = strict_coercion and now = 9
      and flag = stored_dashboard_flag] one_flag_rows
  have second: "\<exists>s1. updateFeatureFlagHandler strict_coercion 9 ''new_dashboard''
           (Some [(''enabled'', JBool True)]) one_flag_server =
           (\<lparr>status = StatusOK,
             body = JFlag (stored_dashboard_flag\<lparr>Enabled := True, FeatureFlag.UpdatedAt := 9\<rparr>)\<rparr>, s1) \<and>
         getFeatureFlagHandler ''new_dashboard'' s1 =
           (\<lparr>status = StatusOK,
             body = JFlag (stored_dashboard_flag\<lparr>Enabled := True, FeatureFlag.UpdatedAt := 9\<rparr>)\<rparr>, s1)"
    by simp
  from first second show ?thesis by blast
qed

text \<open>
  C6 as stated fails for updatedAt: the map names only enabled, yet updatedAt changes
  from 1 to 9.
\<close>

theorem patch_frame_counterexample:
  "feature_flags (db one_flag_server) = [stored_dashboard_flag] \<and>
   FeatureFlag.UpdatedAt stored_dashboard_flag = 1 \<and>
   fst (updateFeatureFlagHandler strict_coercion 9 ''new_dashboard'' (Some [(''enabled'', JBool True)])
          one_flag_server) =
     \<lparr>status = StatusOK,
      body = JFlag (stored_dashboard_flag\<lparr>Enabled := True, FeatureFlag.UpdatedAt := 9\<rparr>)\<rparr>"
  by (simp add: one_flag_server_eq updateFeatureFlagHandler_def db_first_flag_def db_updates_flag_def
      enabled_map example_defs)



section \<open>Zone health\<close>

lemma digit_char:
  "n < 10 \<Longrightarrow> is_digit (''0123456789'' ! n) \<and> digit_value (''0123456789'' ! n) = n \<and>
     (0 < n \<longrightarrow> ''0123456789'' ! n \<noteq> CHR ''0'')"
proof -
  assume small: "n < 10"
  have "list_all (\<lambda>m. is_digit (''0123456789'' ! m) \<and> digit_value (''0123456789'' ! m) = m \<and>
          (0 < m \<longrightarrow> ''0123456789'' ! m \<noteq> CHR ''0'')) [0..<10]"
    by code_simp
  with small show ?thesis
    by (simp add: list_all_iff)
qed

lemma decimal_value_snoc:
  "decimal_value (ds @ [c]) = 10 * decimal_value ds + digit_value c"
  by (simp add: decimal_value_def)

lemma fmt_nat_digits:
  "fmt_nat n \<noteq> [] \<and> list_all is_digit (fmt_nat n) \<and> decimal_value (fmt_nat n) = n"
proof (induction n rule: fmt_nat.induct)
  case (1 n)
  show ?case
  proof (cases "n < 10")
    case True
    then show ?thesis
      using digit_char [of n] by (simp add: fmt_nat.simps [of n] decimal_value_def)
  next
    case False
    then have "n mod 10 < 10" by simp
    with False "1.IH" digit_char [of "n mod 10"] show ?thesis
      by (simp add: fmt_nat.simps [of n] decimal_value_snoc)
  qed
qed

lemma fmt_nat_leading:
  "0 < n \<Longrightarrow> hd (fmt_nat n) \<noteq> CHR ''0''"
proof (induction n rule: fmt_nat.induct)
  case (1 n)
  show ?case
  proof (cases "n < 10")
    case True
    then show ?thesis
      using digit_char [of n] "1.prems" by (simp add: fmt_nat.simps [of n])
  next
    case False
    then have "0 < n div 10" by simp
    with False "1.IH" fmt_nat_digits [of "n div 10"] show ?thesis
      by (simp add: fmt_nat.simps [of n])
  qed
qed

lemma fmt_nat_single: "1 < length (fmt_nat n) \<Longrightarrow> 0 < n"
  by (cases "n = 0") (simp_all add: fmt_nat.simps [of 0])

lemma fmt_d_decimal: "is_decimal_of (fmt_d i) i"
proof -
  define m where "m = nat \<bar>i\<bar>"
  have d: "fmt_nat m \<noteq> []" "list_all is_digit (fmt_nat m)" "decimal_value (fmt_nat m) = m"
    using fmt_nat_digits [of m] by simp_all
  have l: "1 < length (fmt_nat m) \<longrightarrow> hd (fmt_nat m) \<noteq> CHR ''0''"
    using fmt_nat_leading [of m] fmt_nat_single [of m] by blast
  have f: "fmt_d i = (if i < 0 then CHR ''-'' # fmt_nat m else fmt_nat m)"
    by (simp add: fmt_d_def m_def)
  show ?thesis
    unfolding is_decimal_of_def f m_def [symmetric] using d l by simp
qed

lemma fmt_d_404: "fmt_d 404 = ''404''"
  by (simp add: fmt_d_def fmt_nat.simps)

lemma fmt_d_503: "fmt_d 503 = ''503''"
  by (simp add: fmt_d_def fmt_nat.simps)

text \<open>
  C4. For every zone name and URL: when the GET fails, the status is "unhealthy" and the
  message is "Connection failed: " followed by the error; when the response has status
  code 200, the status is "healthy" and the message is "Zone is responding"; when the
  response has any other status code, the status is "degraded" and the message is
  "HTTP " followed by the decimal numeral of that code, so it contains the code.
\<close>

theorem checkZoneHealth_classifies:
  "(client_Get url = GetError err \<longrightarrow>
      checkZoneHealth client_Get now name url =
        \<lparr>ZoneStatus.Name = name, Status = ''unhealthy'', URL = url, LastCheck = now,
         Message = ''Connection failed: '' @ err\<rparr>) \<and>
   (client_Get url = GetResponse 200 \<longrightarrow>
      checkZoneHealth client_Get now name url =
        \<lparr>ZoneStatus.Name = name, Status = ''healthy'', URL = url, LastCheck = now,
         Message = ''Zone is responding''\<rparr>) \<and>
   (client_Get url = GetResponse code \<and> code \<noteq> 200 \<longrightarrow>
      (\<exists>digits. is_decimal_of digits code \<and>
         checkZoneHealth client_Get now name url =
           \<lparr>ZoneStatus.Name = name, Status = ''degraded'', URL = url, LastCheck = now,
            Message = ''HTTP '' @ digits\<rparr> \<and>
         sublist digits (Message (checkZoneHealth client_Get now name url))))"
proof -
  have "sublist (fmt_d code) (''HTTP '' @ fmt_d code)"
    by (rule suffix_imp_sublist) (simp add: suffix_def)
  with fmt_d_decimal [of code] show ?thesis
    by (auto simp add: checkZoneHealth_def intro!: exI [of _ "fmt_d code"])
qed

theorem checkZoneHealth_classifies_witness:
  "checkZoneHealth (\<lambda>u. GetError ''connection refused'') 7 ''zone-main'' ''http://zone-main'' =
     \<lparr>ZoneStatus.Name = ''zone-main'', Status = ''unhealthy'', URL = ''http://zone-main'',
      LastCheck = 7, Message = ''Connection failed: connection refused''\<rparr> \<and>
   checkZoneHealth (\<lambda>u. GetResponse 200) 7 ''zone-main'' ''http://zone-main'' =
     \<lparr>ZoneStatus.Name = ''zone-main'', Status = ''healthy'', URL = ''http://zone-main'',
      LastCheck = 7, Message = ''Zone is responding''\<rparr> \<and>
   checkZoneHealth (\<lambda>u. GetResponse 503) 7 ''zone-admin'' ''http://zone-admin/admin'' =
     \<lparr>ZoneStatus.Name = ''zone-admin'', Status = ''degraded'', URL = ''http://zone-admin/admin'',
      LastCheck = 7, Message = ''HTTP 503''\<rparr> \<and>
   checkZoneHealth (\<lambda>u. GetResponse 404) 7 ''zone-admin'' ''http://zone-admin/admin'' =
     \<lparr>ZoneStatus.Name = ''zone-admin'', Status = ''degraded'', URL = ''http://zone-admin/admin'',
      LastCheck = 7, Message = ''HTTP 404''\<rparr> \<and>
   is_decimal_of ''503'' 503 \<and> is_decimal_of ''404'' 404 \<and>
   sublist ''503''
     (Message (checkZoneHealth (\<lambda>u. GetResponse 503) 7 ''zone-admin'' ''http://zone-admin/admin''))"
proof -
  note a = checkZoneHealth_classifies [of "\<lambda>u. GetError ''connection refused''" "''http://zone-main''"
      "''connection refused''" 7 "''zone-main''" 0]
  note b = checkZoneHealth_classifies [of "\<lambda>u. GetResponse 200" "''http://zone-main''"
      "''x''" 7 "''zone-main''" 0]
  note c = checkZoneHealth_classifies [of "\<lambda>u. GetResponse 503" "''http://zone-admin/admin''"
      "''x''" 7 "''zone-admin''" 503]
  note d = checkZoneHealth_classifies [of "\<lambda>u. GetResponse 404" "''http://zone-admin/admin''"
      "''x''" 7 "''zone-admin''" 404]
  have e: "checkZoneHealth (\<lambda>u. GetResponse 503) 7 ''zone-admin'' ''http://zone-admin/admin'' =
     \<lparr>ZoneStatus.Name = ''zone-admin'', Status = ''degraded'', URL = ''http://zone-admin/admin'',
      LastCheck = 7, Message = ''HTTP 503''\<rparr>"
    "checkZoneHealth (\<lambda>u. GetResponse 404) 7 ''zone-admin'' ''http://zone-admin/admin'' =
     \<lparr>ZoneStatus.Name = ''zone-admin'', Status = ''degraded'', URL = ''http://zone-admin/admin'',
      LastCheck = 7, Message = ''HTTP 404''\<rparr>"
    by (simp_all add: checkZoneHealth_def fmt_d_503 fmt_d_404)
  from c obtain digits where "is_decimal_of digits 503"
    "checkZoneHealth (\<lambda>u. GetResponse 503) 7 ''zone-admin'' ''http://zone-admin/admin'' =
       \<lparr>ZoneStatus.Name = ''zone-admin'', Status = ''degraded'', URL = ''http://zone-admin/admin'',
        LastCheck = 7, Message = ''HTTP '' @ digits\<rparr>"
    "sublist digits (Message (checkZoneHealth (\<lambda>u. GetResponse 503) 7 ''zone-admin'' ''http://zone-admin/admin''))"
    by auto
  with e(1) have c': "is_decimal_of ''503'' 503"
    "sublist ''503'' (Message (checkZoneHealth (\<lambda>u. GetResponse 503) 7 ''zone-admin'' ''http://zone-admin/admin''))"
    by auto
  from d obtain digits where "is_decimal_of digits 404"
    "checkZoneHealth (\<lambda>u. GetResponse 404) 7 ''zone-admin'' ''http://zone-admin/admin'' =
       \<lparr>ZoneStatus.Name = ''zone-admin'', Status = ''degraded'', URL = ''http://zone-admin/admin'',
        LastCheck = 7, Message = ''HTTP '' @ digits\<rparr>"
    by auto
  with e(2) have d': "is_decimal_of ''404'' 404"
    by auto
  from a b e c' d' show ?thesis
    by simp
qed

end
